theory Spec2Isabelle
  imports Complex_Main "HOL-Library.AList"
begin

section \<open>Realtime scoring and adaptive frame-rate engine\<close>

text \<open>
  A shallow embedding of the scoring and control core of
  \<^verbatim>\<open>ml/generate_realtime_text_dataset.py\<close>: the text evidence extractor
  (\<^verbatim>\<open>normalize_text\<close>, \<^verbatim>\<open>score_text_hits\<close>), the score fuser, the temporal
  smoother, the label decider, and the frame-rate controller together with the part of the
  capture loop of \<^verbatim>\<open>main\<close> that threads their state.

  Python floats are modelled as real numbers: the statements below are about exact
  arithmetic, and rounding is modelled only where a statement names \<open>binary64_round\<close>.
  A Python \<^verbatim>\<open>dict[str, float]\<close> is an association list with distinct keys in
  insertion order; \<^verbatim>\<open>d.get(k, v)\<close> is
  \<open>dict_get\<close> and \<^verbatim>\<open>d[k] = v\<close> is \<open>AList.update\<close> (overwrite in place, or append).
\<close>

subsection \<open>Labels and keyword tables\<close>

definition AI_LABELS :: "string list" where
  "AI_LABELS = [
     ''chatgpt_ui'',
     ''claude_ui'',
     ''gemini_ui'',
     ''copilot_ui'',
     ''perplexity_ui'',
     ''deepseek_ui'',
     ''poe_ui'',
     ''grok_ui'',
     ''qwen_ui'',
     ''mistral_ui'',
     ''meta_ai_ui'',
     ''ai_ui'']"

definition NOT_AI_LABEL :: string where
  "NOT_AI_LABEL = ''not_ai_ui''"

definition LABEL_KEYWORDS :: "(string \<times> string list) list" where
  "LABEL_KEYWORDS = [
     (''chatgpt_ui'', [''chatgpt'', ''openai'', ''gpt-4'', ''gpt4'', ''chat.openai'']),
     (''claude_ui'', [''claude'', ''anthropic'', ''claude.ai'']),
     (''gemini_ui'', [''gemini'', ''bard'', ''deepmind'', ''gemini.google'']),
     (''copilot_ui'', [''copilot'', ''microsoft copilot'', ''bing chat'']),
     (''perplexity_ui'', [''perplexity'', ''perplexity.ai'']),
     (''deepseek_ui'', [''deepseek'', ''chat.deepseek'']),
     (''poe_ui'', [''poe.com'', ''poe by quora'', ''poe'']),
     (''grok_ui'', [''grok'', ''xai'', ''grok.com'']),
     (''qwen_ui'', [''qwen'', ''tongyi'', ''chat.qwen.ai'']),
     (''mistral_ui'', [''mistral'', ''le chat'', ''chat.mistral.ai'']),
     (''meta_ai_ui'', [''meta ai'', ''meta.ai'', ''llama'']),
     (''ai_ui'', [''assistant'', ''chatbot'', ''language model'', ''llm'', ''prompt''])]"

subsection \<open>Data model\<close>

type_synonym scores = "(string \<times> real) list"

definition dict_get :: "scores \<Rightarrow> string \<Rightarrow> real \<Rightarrow> real" where
  "dict_get d k dflt = (case map_of d k of Some v \<Rightarrow> v | None \<Rightarrow> dflt)"

definition dict_keys :: "scores \<Rightarrow> string list" where
  "dict_keys d = map fst d"

record OcrHit =
  hit_text :: string
  hit_confidence :: real
  hit_bbox :: "int \<times> int \<times> int \<times> int"

record MatchedHit =
  m_text :: string
  m_confidence :: real
  m_bbox :: "int \<times> int \<times> int \<times> int"
  m_label :: string
  m_keyword :: string
  m_score :: real

subsection \<open>Text normalisation\<close>

text \<open>
  \<^verbatim>\<open>normalize_text\<close> lowers the text, strips it, replaces every maximal run of
  characters outside \<^verbatim>\<open>[0-9a-z]\<close> (matched ignoring case) by one space and strips
  again. Strings are modelled over 8-bit characters with ASCII case conversion; every
  other character is a separator for the regular expression.
\<close>

definition lower_char :: "char \<Rightarrow> char" where
  "lower_char c =
     (case map_of (zip ''ABCDEFGHIJKLMNOPQRSTUVWXYZ'' ''abcdefghijklmnopqrstuvwxyz'') c of
        Some d \<Rightarrow> d | None \<Rightarrow> c)"

definition lower :: "string \<Rightarrow> string" where
  "lower s = map lower_char s"

definition is_space :: "char \<Rightarrow> bool" where
  "is_space c \<longleftrightarrow> c \<in> set [CHR '' '', CHR 0x09, CHR 0x0A, CHR 0x0B, CHR 0x0C, CHR 0x0D,
                              CHR 0x1C, CHR 0x1D, CHR 0x1E, CHR 0x1F]"

definition strip :: "string \<Rightarrow> string" where
  "strip s = rev (dropWhile is_space (rev (dropWhile is_space s)))"

definition is_alnum :: "char \<Rightarrow> bool" where
  "is_alnum c \<longleftrightarrow>
     c \<in> set ''0123456789abcdefghijklmnopqrstuvwxyzABCDEFGHIJKLMNOPQRSTUVWXYZ''"

text \<open>\<^verbatim>\<open>_ALNUM_RE.sub(" ", s)\<close>; the flag says whether the scan is inside a run.\<close>

fun alnum_sub :: "bool \<Rightarrow> string \<Rightarrow> string" where
  "alnum_sub in_run [] = []"
| "alnum_sub in_run (c # cs) =
     (if is_alnum c then c # alnum_sub False cs
      else if in_run then alnum_sub True cs
      else CHR '' '' # alnum_sub True cs)"

definition normalize_text :: "string \<Rightarrow> string" where
  "normalize_text v = (let lowered = strip (lower v) in strip (alnum_sub False lowered))"

text \<open>\<^verbatim>\<open>key in text\<close> on strings: contiguous substring.\<close>

fun starts_with :: "string \<Rightarrow> string \<Rightarrow> bool" where
  "starts_with [] s = True"
| "starts_with (k # ks) [] = False"
| "starts_with (k # ks) (c # cs) = (k = c \<and> starts_with ks cs)"

fun contains :: "string \<Rightarrow> string \<Rightarrow> bool" where
  "contains k [] = (k = [])"
| "contains k (c # cs) = (starts_with k (c # cs) \<or> contains k cs)"

subsection \<open>Text evidence extractor\<close>

definition keyword_weight :: "string \<Rightarrow> real" where
  "keyword_weight key_norm = min 1 (0.35 + real (length key_norm) / 16)"

text \<open>
  The body of the innermost loop of \<^verbatim>\<open>score_text_hits\<close> for one keyword. The
  accumulator is \<^verbatim>\<open>(raw_scores, best_match)\<close>. \<^verbatim>\<open>raw_scores[label] += score\<close>
  reads a key that is always present (\<open>raw_scores\<close> starts with every label of
  \<open>AI_LABELS\<close>, which are the keys of \<open>LABEL_KEYWORDS\<close>).
\<close>

definition match_keyword ::
  "OcrHit \<Rightarrow> string \<Rightarrow> string \<Rightarrow> string \<Rightarrow> scores \<times> MatchedHit option
     \<Rightarrow> scores \<times> MatchedHit option" where
  "match_keyword hit normalized label keyword acc =
     (let key_norm = normalize_text keyword in
      if key_norm = [] then acc
      else if contains key_norm normalized then
        (let weight = keyword_weight key_norm;
             score = hit_confidence hit * weight;
             raw_scores = AList.update label (dict_get (fst acc) label 0 + score) (fst acc);
             entry = \<lparr>m_text = hit_text hit, m_confidence = hit_confidence hit,
                      m_bbox = hit_bbox hit, m_label = label, m_keyword = keyword,
                      m_score = score\<rparr>
         in (raw_scores,
             (case snd acc of
                None \<Rightarrow> Some entry
              | Some best \<Rightarrow> if m_score entry > m_score best then Some entry else Some best)))
      else acc)"

definition match_label ::
  "OcrHit \<Rightarrow> string \<Rightarrow> string \<times> string list \<Rightarrow> scores \<times> MatchedHit option
     \<Rightarrow> scores \<times> MatchedHit option" where
  "match_label hit normalized entry acc =
     fold (match_keyword hit normalized (fst entry)) (snd entry) acc"

definition match_hit ::
  "(string \<times> string list) list \<Rightarrow> OcrHit \<Rightarrow> scores \<times> MatchedHit list
     \<Rightarrow> scores \<times> MatchedHit list" where
  "match_hit table hit st =
     (let normalized = normalize_text (hit_text hit) in
      if normalized = [] then st
      else
        (let res = fold (match_label hit normalized) table (fst st, None)
         in (fst res, (case snd res of None \<Rightarrow> snd st | Some best \<Rightarrow> snd st @ [best]))))"

definition max_list :: "real list \<Rightarrow> real" where
  "max_list xs = fold max (tl xs) (hd xs)"

text \<open>
  Line 343 in exact arithmetic. Over the reals the value is below 1 for every argument;
  the binary64 difference is exactly 1 once the exponential is at most \<open>2\<^sup>-\<^sup>5\<^sup>4\<close> (see
  \<open>binary64_round\<close> below), so no statement relies on the strict bound.
\<close>

definition saturate :: "real \<Rightarrow> real \<Rightarrow> real" where
  "saturate raw keyword_gain = 1 - exp (- (max 0 raw) * max 0.05 keyword_gain)"

definition score_text_hits :: "OcrHit list \<Rightarrow> real \<Rightarrow> scores \<times> MatchedHit list" where
  "score_text_hits hits keyword_gain =
     (let raw0 = map (\<lambda>label. (label, 0)) AI_LABELS;
          res = fold (match_hit LABEL_KEYWORDS) hits (raw0, []);
          raw_scores = fst res;
          matched = snd res;
          text_scores =
            fold (\<lambda>label ts. AList.update label (saturate (dict_get raw_scores label 0) keyword_gain) ts)
              AI_LABELS [];
          max_ai = (if text_scores = [] then 0 else max_list (map snd text_scores))
      in (AList.update NOT_AI_LABEL (max 0 (1 - max_ai)) text_scores, matched))"

subsection \<open>Temporal smoother and score fuser\<close>

text \<open>
  \<^verbatim>\<open>set(a) | set(b)\<close>: the keys of both vectors, each once. Python leaves the
  iteration order of a set unspecified; the model lists the keys in the order
  \<open>remdups\<close> leaves them in, and no statement below depends on that order other than
  through lookups.
\<close>

definition union_keys :: "scores \<Rightarrow> scores \<Rightarrow> string list" where
  "union_keys a b = remdups (dict_keys a @ dict_keys b)"

definition smooth_scores :: "scores \<Rightarrow> scores \<Rightarrow> real \<Rightarrow> scores" where
  "smooth_scores previous current decay0 =
     (let decay = min (max decay0 0) 0.99;
          labels = union_keys previous current
      in fold (\<lambda>label result.
                 AList.update label
                   (dict_get previous label 0 * decay + dict_get current label 0 * (1 - decay))
                   result)
           labels [])"

datatype error = ZeroDivisionError

text \<open>Python's float division raises on a zero divisor.\<close>

definition py_div :: "real \<Rightarrow> real \<Rightarrow> error + real" where
  "py_div a b = (if b = 0 then Inl ZeroDivisionError else Inr (a / b))"

fun fuse_loop ::
  "scores \<Rightarrow> scores \<Rightarrow> real \<Rightarrow> real \<Rightarrow> real \<Rightarrow> string list \<Rightarrow> scores \<Rightarrow> error + scores" where
  "fuse_loop text_scores model_scores text_weight model_weight total_w [] fused = Inr fused"
| "fuse_loop text_scores model_scores text_weight model_weight total_w (label # labels) fused =
     (case py_div (dict_get text_scores label 0 * text_weight
                   + dict_get model_scores label 0 * model_weight) total_w of
        Inl e \<Rightarrow> Inl e
      | Inr v \<Rightarrow>
          fuse_loop text_scores model_scores text_weight model_weight total_w labels
            (AList.update label v fused))"

definition fuse_scores :: "scores \<Rightarrow> scores \<Rightarrow> real \<Rightarrow> real \<Rightarrow> error + scores" where
  "fuse_scores text_scores model_scores text_weight0 model_weight0 =
     (let text_weight = max 0 text_weight0;
          model_weight = max 0 model_weight0;
          total_w = text_weight + model_weight;
          labels = union_keys text_scores model_scores
      in if total_w \<le> 0
         then fuse_loop text_scores model_scores 1 0 1 labels []
         else fuse_loop text_scores model_scores text_weight model_weight total_w labels [])"

subsection \<open>Label decider\<close>

text \<open>
  \<^verbatim>\<open>max(ai_candidates, key=ai_candidates.get)\<close> walks the dictionary in insertion
  order and replaces the running best only by a strictly greater value, so the first key
  of maximal value wins.
\<close>

fun max_by_value :: "scores \<Rightarrow> string \<times> real \<Rightarrow> string \<times> real" where
  "max_by_value [] best = best"
| "max_by_value (item # items) best =
     max_by_value items (if snd item > snd best then item else best)"

definition decide_label :: "scores \<Rightarrow> real \<Rightarrow> string \<times> real" where
  "decide_label scores label_threshold =
     (let ai_candidates = filter (\<lambda>item. fst item \<in> set AI_LABELS) scores in
      case ai_candidates of
        [] \<Rightarrow> (NOT_AI_LABEL, 1)
      | first # others \<Rightarrow>
          (let best = max_by_value others first;
               best_label = fst best;
               best_score = snd best
           in if best_score \<ge> label_threshold then (best_label, best_score)
              else (NOT_AI_LABEL, dict_get scores NOT_AI_LABEL (max 0 (1 - best_score)))))"

subsection \<open>Frame-rate controller\<close>

record args =
  base_fps :: real
  high_fps :: real
  high_fps_trigger :: real
  high_fps_return_threshold :: real
  high_fps_hold_seconds :: real
  label_threshold :: real
  keyword_gain :: real
  ema_decay :: real
  text_weight :: real
  model_weight :: real
  ocr_every_n_frames :: int
  ocr_interval_seconds :: real

text \<open>The defaults of \<^verbatim>\<open>parse_args\<close> for the options modelled here.\<close>

definition default_args :: args where
  "default_args =
     \<lparr>base_fps = 4,
      high_fps = 8,
      high_fps_trigger = 0.20,
      high_fps_return_threshold = 0.12,
      high_fps_hold_seconds = 3,
      label_threshold = 0.20,
      keyword_gain = 0.70,
      ema_decay = 0.65,
      text_weight = 0.75,
      model_weight = 0.25,
      ocr_every_n_frames = 1,
      ocr_interval_seconds = 5\<rparr>"

record fps_state =
  high_mode_until :: real
  current_fps :: real

text \<open>\<^verbatim>\<open>max((smoothed_scores.get(label, 0.0) for label in AI_LABELS), default=0.0)\<close>\<close>

definition ai_peak :: "scores \<Rightarrow> real" where
  "ai_peak smoothed =
     (let vals = map (\<lambda>label. dict_get smoothed label 0) AI_LABELS
      in if vals = [] then 0 else max_list vals)"

text \<open>Lines 606 to 614 of \<^verbatim>\<open>main\<close>: one update of the frame-rate state.\<close>

definition fps_control :: "args \<Rightarrow> scores \<Rightarrow> real \<Rightarrow> fps_state \<Rightarrow> fps_state" where
  "fps_control a smoothed now st =
     (let ai_max = ai_peak smoothed;
          st1 = (if ai_max \<ge> high_fps_trigger a
                 then st\<lparr>high_mode_until := now + max 0 (high_fps_hold_seconds a)\<rparr>
                 else st)
      in if now < high_mode_until st1
         then st1\<lparr>current_fps := max (base_fps a) (high_fps a)\<rparr>
         else if ai_max \<le> high_fps_return_threshold a
         then st1\<lparr>current_fps := base_fps a\<rparr>
         else st1)"

text \<open>
  The frame-rate state after each iteration of a run; an iteration supplies the smoothed
  vector and the wall-clock reading \<^verbatim>\<open>now\<close>.
\<close>

fun fps_trace :: "args \<Rightarrow> fps_state \<Rightarrow> (scores \<times> real) list \<Rightarrow> fps_state list" where
  "fps_trace a st [] = []"
| "fps_trace a st (inp # rest) =
     (let st' = fps_control a (fst inp) (snd inp) st in st' # fps_trace a st' rest)"

subsection \<open>Capture loop\<close>

text \<open>
  The state that \<^verbatim>\<open>main\<close> carries across iterations, without the persistence
  counters. An iteration reads from its environment the clock before OCR
  (\<open>now_loop\<close>), the hits the OCR engine yields on this frame if it is run
  (\<open>ocr_result\<close>), the auxiliary model's scores (\<open>model_result\<close>, empty when no model is
  configured) and the clock after scoring (\<open>now\<close>).
\<close>

record loop_state =
  smoothed_scores :: scores
  last_ocr_hits :: "OcrHit list"
  last_matched_hits :: "MatchedHit list"
  last_text_scores :: scores
  last_ocr_run_ts :: real
  frame_index :: nat
  fps :: fps_state

record frame_input =
  now_loop :: real
  ocr_result :: "OcrHit list"
  model_result :: scores
  now :: real

record frame_output =
  predicted_label :: string
  predicted_conf :: real
  fps_target :: real

definition initial_state :: "args \<Rightarrow> loop_state" where
  "initial_state a =
     \<lparr>smoothed_scores = [],
      last_ocr_hits = [],
      last_matched_hits = [],
      last_text_scores = map (\<lambda>label. (label, 0)) (AI_LABELS @ [NOT_AI_LABEL]),
      last_ocr_run_ts = 0,
      frame_index = 0,
      fps = \<lparr>high_mode_until = 0, current_fps = max 1 (base_fps a)\<rparr>\<rparr>"

definition run_ocr_stage :: "args \<Rightarrow> loop_state \<Rightarrow> frame_input \<Rightarrow> loop_state" where
  "run_ocr_stage a st inp =
     (let every_n = max 1 (ocr_every_n_frames a);
          interval = max 0 (ocr_interval_seconds a);
          by_frame = (frame_index st = 0 \<or> int (frame_index st) mod every_n = 0);
          by_time = (frame_index st = 0 \<or> interval \<le> 0
                     \<or> now_loop inp - last_ocr_run_ts st \<ge> interval)
      in if by_frame \<and> by_time
         then (let res = score_text_hits (ocr_result inp) (keyword_gain a)
               in st\<lparr>last_ocr_hits := ocr_result inp,
                      last_matched_hits := snd res,
                      last_text_scores := fst res,
                      last_ocr_run_ts := now_loop inp\<rparr>)
         else st)"

definition iteration ::
  "args \<Rightarrow> loop_state \<Rightarrow> frame_input \<Rightarrow> error + (loop_state \<times> frame_output)" where
  "iteration a st inp =
     (let st1 = run_ocr_stage a st inp;
          text_scores = last_text_scores st1
      in case fuse_scores text_scores (model_result inp) (text_weight a) (model_weight a) of
           Inl e \<Rightarrow> Inl e
         | Inr fused \<Rightarrow>
             (let smoothed = smooth_scores (smoothed_scores st1) fused (ema_decay a);
                  decided = decide_label smoothed (label_threshold a);
                  fps' = fps_control a smoothed (now inp) (fps st1)
              in Inr (st1\<lparr>smoothed_scores := smoothed,
                           frame_index := frame_index st1 + 1,
                           fps := fps'\<rparr>,
                      \<lparr>predicted_label = fst decided,
                       predicted_conf = snd decided,
                       fps_target = current_fps fps'\<rparr>)))"

text \<open>A run of the loop over the frames it gets; an exception ends it.\<close>

fun run_loop ::
  "args \<Rightarrow> loop_state \<Rightarrow> frame_input list \<Rightarrow> error + (loop_state \<times> frame_output list)" where
  "run_loop a st [] = Inr (st, [])"
| "run_loop a st (inp # rest) =
     (case iteration a st inp of
        Inl e \<Rightarrow> Inl e
      | Inr (st', out) \<Rightarrow>
          (case run_loop a st' rest of
             Inl e \<Rightarrow> Inl e
           | Inr (st'', outs) \<Rightarrow> Inr (st'', out # outs)))"

subsection \<open>Notions used in the statements\<close>

text \<open>
  The weights that \<^verbatim>\<open>fuse_scores\<close> works with after clamping and after its guard
  against a zero total, and the value it stores for one label.
\<close>

definition eff_text_weight :: "real \<Rightarrow> real \<Rightarrow> real" where
  "eff_text_weight tw mw = (if max 0 tw + max 0 mw \<le> 0 then 1 else max 0 tw)"

definition eff_model_weight :: "real \<Rightarrow> real \<Rightarrow> real" where
  "eff_model_weight tw mw = (if max 0 tw + max 0 mw \<le> 0 then 0 else max 0 mw)"

definition fused_value :: "scores \<Rightarrow> scores \<Rightarrow> real \<Rightarrow> real \<Rightarrow> real \<Rightarrow> string \<Rightarrow> real" where
  "fused_value t m tw mw tot label = (dict_get t label 0 * tw + dict_get m label 0 * mw) / tot"

text \<open>
  The scores of the labels of \<open>AI_LABELS\<close> that a vector holds: the values of
  \<^verbatim>\<open>ai_candidates\<close> in \<^verbatim>\<open>decide_label\<close>.
\<close>

definition ai_values :: "scores \<Rightarrow> real set" where
  "ai_values d = snd ` {item \<in> set d. fst item \<in> set AI_LABELS}"

text \<open>
  The evidence that one hit gives to one label: the weight of a keyword that the
  normalised text contains (0 otherwise), summed over the keywords of the label, and the
  total that \<^verbatim>\<open>score_text_hits\<close> has accumulated in \<^verbatim>\<open>raw_scores[label]\<close> when
  its loop over the hits ends.
\<close>

definition kw_weight :: "string \<Rightarrow> string \<Rightarrow> real" where
  "kw_weight normalized keyword =
     (let key_norm = normalize_text keyword
      in if key_norm \<noteq> [] \<and> contains key_norm normalized then keyword_weight key_norm else 0)"

definition label_weight :: "(string \<times> string list) list \<Rightarrow> string \<Rightarrow> string \<Rightarrow> real" where
  "label_weight table label normalized =
     sum_list (map (\<lambda>entry. if fst entry = label
                              then sum_list (map (kw_weight normalized) (snd entry)) else 0)
                 table)"

definition hit_weight :: "(string \<times> string list) list \<Rightarrow> string \<Rightarrow> OcrHit \<Rightarrow> real" where
  "hit_weight table label hit =
     (let normalized = normalize_text (hit_text hit)
      in if normalized = [] then 0 else label_weight table label normalized)"

definition raw_score :: "OcrHit list \<Rightarrow> string \<Rightarrow> real" where
  "raw_score hits label =
     dict_get (fst (fold (match_hit LABEL_KEYWORDS) hits (map (\<lambda>label. (label, 0)) AI_LABELS, [])))
       label 0"

text \<open>\<^verbatim>\<open>text_scores[label]\<close> of the vector that \<^verbatim>\<open>score_text_hits\<close> returns.\<close>

definition text_score :: "OcrHit list \<Rightarrow> real \<Rightarrow> string \<Rightarrow> real" where
  "text_score hits gain label = dict_get (fst (score_text_hits hits gain)) label 0"

text \<open>Every value of a score vector lies in the closed unit interval.\<close>

definition in_unit :: "scores \<Rightarrow> bool" where
  "in_unit d \<longleftrightarrow> (\<forall>item \<in> set d. 0 \<le> snd item \<and> snd item \<le> 1)"

text \<open>
  The vectors of a run without evidence: every label of \<open>AI_LABELS\<close> at 0 and
  \<open>not_ai_ui\<close> at \<open>v\<close>. \<open>text_share\<close> is the weight of the text vector over the
  total weight, as \<^verbatim>\<open>fuse_scores\<close> uses them, and \<open>clamp_decay\<close> the decay that
  \<^verbatim>\<open>smooth_scores\<close> uses.
\<close>

definition quiet_scores :: "real \<Rightarrow> scores" where
  "quiet_scores v = map (\<lambda>label. (label, 0)) AI_LABELS @ [(NOT_AI_LABEL, v)]"

definition text_share :: "real \<Rightarrow> real \<Rightarrow> real" where
  "text_share tw mw = eff_text_weight tw mw / (eff_text_weight tw mw + eff_model_weight tw mw)"

definition clamp_decay :: "real \<Rightarrow> real" where
  "clamp_decay d = min (max d 0) 0.99"

definition quiet_state :: "real \<Rightarrow> loop_state \<Rightarrow> bool" where
  "quiet_state p st \<longleftrightarrow>
     (frame_index st = 0 \<or> last_text_scores st = quiet_scores 1)
     \<and> (smoothed_scores st = [] \<and> p = 0 \<or> smoothed_scores st = quiet_scores p)"

definition quiet_input :: "frame_input \<Rightarrow> bool" where
  "quiet_input inp \<longleftrightarrow> ocr_result inp = [] \<and> model_result inp = []"

text \<open>What a run from the initial state reports, frame by frame.\<close>

definition run_outputs :: "args \<Rightarrow> frame_input list \<Rightarrow> frame_output list option" where
  "run_outputs a inputs =
     (case run_loop a (initial_state a) inputs of
        Inl e \<Rightarrow> None
      | Inr res \<Rightarrow> Some (snd res))"



subsection \<open>Dictionary lemmas\<close>

lemma dict_get_update:
  "dict_get (AList.update k v d) l x = (if l = k then v else dict_get d l x)"
  by (simp add: dict_get_def update_conv')

lemma dict_keys_update: "set (dict_keys (AList.update k v d)) = insert k (set (dict_keys d))"
  by (simp add: dict_keys_def dom_update)

lemma dict_keys_Nil: "dict_keys [] = []"
  by (simp add: dict_keys_def)

lemma map_of_fold_update:
  "map_of (fold (\<lambda>l r. AList.update l (f l) r) ls r0) k
     = (if k \<in> set ls then Some (f k) else map_of r0 k)"
  by (induction ls arbitrary: r0) (auto simp: update_conv')

lemma keys_fold_update:
  "set (dict_keys (fold (\<lambda>l r. AList.update l (f l) r) ls r0)) = set ls \<union> set (dict_keys r0)"
  by (induction ls arbitrary: r0) (auto simp: dict_keys_update)

lemma distinct_fold_update:
  "distinct (dict_keys r0) \<Longrightarrow> distinct (dict_keys (fold (\<lambda>l r. AList.update l (f l) r) ls r0))"
  by (induction ls arbitrary: r0) (auto simp: dict_keys_def distinct_update)

lemma set_union_keys: "set (union_keys a b) = set (dict_keys a) \<union> set (dict_keys b)"
  by (simp add: union_keys_def)

lemma dict_get_fold_update:
  "dict_get (fold (\<lambda>l r. AList.update l (f l) r) ls []) k x = (if k \<in> set ls then f k else x)"
  by (simp add: dict_get_def map_of_fold_update)

lemma dict_get_in_keys:
  assumes "k \<notin> set (dict_keys d)"
  shows "dict_get d k x = x"
proof -
  from assms have "map_of d k = None"
    by (simp add: dict_keys_def map_of_eq_None_iff)
  then show ?thesis by (simp add: dict_get_def)
qed

lemma map_of_in_keys:
  "k \<in> set (dict_keys d) \<Longrightarrow> map_of d k = Some (dict_get d k x)"
  by (auto simp: dict_get_def dict_keys_def map_of_eq_None_iff split: option.splits)

subsection \<open>Fuser\<close>

lemma fuse_loop_total:
  "tot \<noteq> 0 \<Longrightarrow>
   fuse_loop t m tw mw tot labels fused
     = Inr (fold (\<lambda>l r. AList.update l (fused_value t m tw mw tot l) r) labels fused)"
  by (induction labels arbitrary: fused) (simp_all add: py_div_def fused_value_def)

lemma eff_weights_pos: "0 < eff_text_weight tw mw + eff_model_weight tw mw"
  and eff_text_weight_nonneg: "0 \<le> eff_text_weight tw mw"
  and eff_model_weight_nonneg: "0 \<le> eff_model_weight tw mw"
  by (auto simp: eff_text_weight_def eff_model_weight_def)

lemma fuse_scores_total:
  "fuse_scores t m tw mw
     = Inr (fold (\<lambda>l r. AList.update l
                    (fused_value t m (eff_text_weight tw mw) (eff_model_weight tw mw)
                       (eff_text_weight tw mw + eff_model_weight tw mw) l) r)
              (union_keys t m) [])"
proof (cases "max 0 tw + max 0 mw \<le> 0")
  case True
  then show ?thesis
    by (simp add: fuse_scores_def Let_def fuse_loop_total eff_text_weight_def eff_model_weight_def)
next
  case False
  then have "max 0 tw + max 0 mw \<noteq> 0" by linarith
  with False show ?thesis
    by (simp add: fuse_scores_def Let_def fuse_loop_total eff_text_weight_def eff_model_weight_def)
qed

lemma fuse_scores_props:
  obtains fused where "fuse_scores t m tw mw = Inr fused"
    and "set (dict_keys fused) = set (dict_keys t) \<union> set (dict_keys m)"
    and "distinct (dict_keys fused)"
    and "\<And>l. l \<in> set (dict_keys t) \<union> set (dict_keys m) \<Longrightarrow>
           map_of fused l = Some (fused_value t m (eff_text_weight tw mw) (eff_model_weight tw mw)
                       (eff_text_weight tw mw + eff_model_weight tw mw) l)"
    and "\<And>l. l \<notin> set (dict_keys t) \<union> set (dict_keys m) \<Longrightarrow> map_of fused l = None"
proof -
  let ?f = "fold (\<lambda>l r. AList.update l
                    (fused_value t m (eff_text_weight tw mw) (eff_model_weight tw mw)
                       (eff_text_weight tw mw + eff_model_weight tw mw) l) r)
              (union_keys t m) []"
  show ?thesis
  proof (rule that [of ?f])
    show "fuse_scores t m tw mw = Inr ?f" by (rule fuse_scores_total)
    show "set (dict_keys ?f) = set (dict_keys t) \<union> set (dict_keys m)"
      by (simp add: keys_fold_update set_union_keys dict_keys_Nil)
    show "distinct (dict_keys ?f)"
      by (rule distinct_fold_update) (simp add: dict_keys_Nil)
  qed (simp_all add: map_of_fold_update set_union_keys)
qed

lemma fused_value_text_only: "fused_value t m 1 0 1 l = dict_get t l 0"
  by (simp add: fused_value_def)

lemma fused_value_model_only: "fused_value t m 0 1 1 l = dict_get m l 0"
  by (simp add: fused_value_def)

lemma fuse_text_only_lookup:
  assumes "fuse_scores t m 1 0 = Inr fused"
  shows "map_of fused l = (if l \<in> set (dict_keys t) \<union> set (dict_keys m)
                            then Some (dict_get t l 0) else None)"
proof -
  obtain f where f: "fuse_scores t m 1 0 = Inr f"
    and some: "\<And>l. l \<in> set (dict_keys t) \<union> set (dict_keys m) \<Longrightarrow>
           map_of f l = Some (fused_value t m (eff_text_weight 1 0) (eff_model_weight 1 0)
                       (eff_text_weight 1 0 + eff_model_weight 1 0) l)"
    and none: "\<And>l. l \<notin> set (dict_keys t) \<union> set (dict_keys m) \<Longrightarrow> map_of f l = None"
    by (rule fuse_scores_props [of t m 1 0]) blast
  from f assms have [simp]: "f = fused" by simp
  have w: "eff_text_weight 1 0 = 1" "eff_model_weight 1 0 = 0"
    by (simp_all add: eff_text_weight_def eff_model_weight_def)
  show ?thesis
  proof (cases "l \<in> set (dict_keys t) \<union> set (dict_keys m)")
    case True
    with some [OF True] show ?thesis by (simp add: w fused_value_text_only)
  next
    case False
    with none [OF False] show ?thesis by simp
  qed
qed

lemma fuse_model_only_lookup:
  assumes "fuse_scores t m 0 1 = Inr fused"
  shows "map_of fused l = (if l \<in> set (dict_keys t) \<union> set (dict_keys m)
                            then Some (dict_get m l 0) else None)"
proof -
  obtain f where f: "fuse_scores t m 0 1 = Inr f"
    and some: "\<And>l. l \<in> set (dict_keys t) \<union> set (dict_keys m) \<Longrightarrow>
           map_of f l = Some (fused_value t m (eff_text_weight 0 1) (eff_model_weight 0 1)
                       (eff_text_weight 0 1 + eff_model_weight 0 1) l)"
    and none: "\<And>l. l \<notin> set (dict_keys t) \<union> set (dict_keys m) \<Longrightarrow> map_of f l = None"
    by (rule fuse_scores_props [of t m 0 1]) blast
  from f assms have [simp]: "f = fused" by simp
  have w: "eff_text_weight 0 1 = 0" "eff_model_weight 0 1 = 1"
    by (simp_all add: eff_text_weight_def eff_model_weight_def)
  show ?thesis
  proof (cases "l \<in> set (dict_keys t) \<union> set (dict_keys m)")
    case True
    with some [OF True] show ?thesis by (simp add: w fused_value_model_only)
  next
    case False
    with none [OF False] show ?thesis by simp
  qed
qed

lemma fuse_nonpositive_weights:
  assumes "tw \<le> 0" "mw \<le> 0"
  shows "fuse_scores t m tw mw = fuse_scores t m 1 0"
proof -
  from assms have "max 0 tw + max 0 mw \<le> 0" by (simp add: max_def)
  then show ?thesis by (simp add: fuse_scores_def Let_def)
qed

lemma map_of_eq_dict_get:
  "map_of d l = Some v \<Longrightarrow> dict_get d l x = v"
  "map_of d l = None \<Longrightarrow> dict_get d l x = x"
  by (simp_all add: dict_get_def)

text \<open>
  Claim C8 (zero-weight guard of the score fuser). When both weights are at most zero,
  \<^verbatim>\<open>fuse_scores\<close> raises no division error and returns what it returns for the
  weights 1 and 0: its keys are the union of the two key sets, and every such label
  carries the text vector's value, 0 where the text vector has no such key.
\<close>

theorem fuse_scores_zero_weight_guard:
  assumes "tw \<le> 0" and "mw \<le> 0"
  shows "\<exists>fused. fuse_scores text_scores model_scores tw mw = Inr fused
           \<and> fuse_scores text_scores model_scores 1 0 = Inr fused
           \<and> set (dict_keys fused) = set (dict_keys text_scores) \<union> set (dict_keys model_scores)
           \<and> (\<forall>label \<in> set (dict_keys text_scores) \<union> set (dict_keys model_scores).
                 map_of fused label = Some (dict_get text_scores label 0))"
proof -
  obtain fused where f: "fuse_scores text_scores model_scores 1 0 = Inr fused"
    and k: "set (dict_keys fused) = set (dict_keys text_scores) \<union> set (dict_keys model_scores)"
    by (rule fuse_scores_props [of text_scores model_scores 1 0]) blast
  have "fuse_scores text_scores model_scores tw mw = Inr fused"
    using fuse_nonpositive_weights [OF assms] f by simp
  moreover have "\<forall>label \<in> set (dict_keys text_scores) \<union> set (dict_keys model_scores).
                 map_of fused label = Some (dict_get text_scores label 0)"
    using fuse_text_only_lookup [OF f] by simp
  ultimately show ?thesis using f k by blast
qed

theorem fuse_scores_zero_weight_guard_witness:
  "\<exists>fused. fuse_scores [(''ai_ui'', 1/4), (''not_ai_ui'', 3/4)] [(''class_0'', 1/2)] 0 (-1) = Inr fused
      \<and> map_of fused ''ai_ui'' = Some (1/4) \<and> map_of fused ''class_0'' = Some 0"
  using fuse_scores_zero_weight_guard
          [of 0 "-1" "[(''ai_ui'', 1/4), (''not_ai_ui'', 3/4)]" "[(''class_0'', 1/2)]"]
  by (auto simp: dict_keys_def dict_get_def)

lemma map_of_fused_text:
  assumes "fuse_scores t m 1 0 = Inr fused"
  shows "map_of fused = map_of t \<longleftrightarrow> set (dict_keys m) \<subseteq> set (dict_keys t)"
proof
  assume eq: "map_of fused = map_of t"
  show "set (dict_keys m) \<subseteq> set (dict_keys t)"
  proof
    fix l assume "l \<in> set (dict_keys m)"
    then have "map_of fused l \<noteq> None"
      using fuse_text_only_lookup [OF assms, of l] by simp
    with eq have "map_of t l \<noteq> None" by simp
    then show "l \<in> set (dict_keys t)"
      by (simp add: dict_keys_def map_of_eq_None_iff)
  qed
next
  assume sub: "set (dict_keys m) \<subseteq> set (dict_keys t)"
  show "map_of fused = map_of t"
  proof
    fix l
    show "map_of fused l = map_of t l"
    proof (cases "l \<in> set (dict_keys t)")
      case True
      then show ?thesis
        using fuse_text_only_lookup [OF assms, of l] map_of_in_keys [OF True, of 0] by simp
    next
      case False
      with sub have "l \<notin> set (dict_keys t) \<union> set (dict_keys m)" by blast
      moreover from False have "map_of t l = None"
        by (simp add: dict_keys_def map_of_eq_None_iff)
      ultimately show ?thesis
        using fuse_text_only_lookup [OF assms, of l] by simp
    qed
  qed
qed

lemma map_of_fused_model:
  assumes "fuse_scores t m 0 1 = Inr fused"
  shows "map_of fused = map_of m \<longleftrightarrow> set (dict_keys t) \<subseteq> set (dict_keys m)"
proof
  assume eq: "map_of fused = map_of m"
  show "set (dict_keys t) \<subseteq> set (dict_keys m)"
  proof
    fix l assume "l \<in> set (dict_keys t)"
    then have "map_of fused l \<noteq> None"
      using fuse_model_only_lookup [OF assms, of l] by simp
    with eq have "map_of m l \<noteq> None" by simp
    then show "l \<in> set (dict_keys m)"
      by (simp add: dict_keys_def map_of_eq_None_iff)
  qed
next
  assume sub: "set (dict_keys t) \<subseteq> set (dict_keys m)"
  show "map_of fused = map_of m"
  proof
    fix l
    show "map_of fused l = map_of m l"
    proof (cases "l \<in> set (dict_keys m)")
      case True
      then show ?thesis
        using fuse_model_only_lookup [OF assms, of l] map_of_in_keys [OF True, of 0] by simp
    next
      case False
      with sub have "l \<notin> set (dict_keys t) \<union> set (dict_keys m)" by blast
      moreover from False have "map_of m l = None"
        by (simp add: dict_keys_def map_of_eq_None_iff)
      ultimately show ?thesis
        using fuse_model_only_lookup [OF assms, of l] by simp
    qed
  qed
qed

lemma dict_get_fused_text:
  assumes "fuse_scores t m 1 0 = Inr fused"
  shows "dict_get fused l 0 = dict_get t l 0"
proof (cases "l \<in> set (dict_keys t) \<union> set (dict_keys m)")
  case True
  then show ?thesis
    using fuse_text_only_lookup [OF assms, of l] by (simp add: map_of_eq_dict_get)
next
  case False
  then have "l \<notin> set (dict_keys t)" by simp
  then have "dict_get t l 0 = 0" by (rule dict_get_in_keys)
  moreover from False have "dict_get fused l 0 = 0"
    using fuse_text_only_lookup [OF assms, of l] by (simp add: map_of_eq_dict_get)
  ultimately show ?thesis by simp
qed

lemma dict_get_fused_model:
  assumes "fuse_scores t m 0 1 = Inr fused"
  shows "dict_get fused l 0 = dict_get m l 0"
proof (cases "l \<in> set (dict_keys t) \<union> set (dict_keys m)")
  case True
  then show ?thesis
    using fuse_model_only_lookup [OF assms, of l] by (simp add: map_of_eq_dict_get)
next
  case False
  then have "l \<notin> set (dict_keys m)" by simp
  then have "dict_get m l 0 = 0" by (rule dict_get_in_keys)
  moreover from False have "dict_get fused l 0 = 0"
    using fuse_model_only_lookup [OF assms, of l] by (simp add: map_of_eq_dict_get)
  ultimately show ?thesis by simp
qed

text \<open>
  Claim C4 (score fuser at the extreme weights), as amended. With weights 1 and 0 the
  fused vector has the union of both key sets as its keys and agrees with the text vector
  on every label when a missing label reads as 0; it is the text vector as a mapping
  exactly when every key of the model vector is a key of the text vector. The same holds
  with weights 0 and 1 and the two vectors exchanged.
\<close>

theorem fuse_scores_extreme_weights:
  "\<exists>fused_t fused_m.
      fuse_scores t m 1 0 = Inr fused_t
    \<and> fuse_scores t m 0 1 = Inr fused_m
    \<and> set (dict_keys fused_t) = set (dict_keys t) \<union> set (dict_keys m)
    \<and> set (dict_keys fused_m) = set (dict_keys t) \<union> set (dict_keys m)
    \<and> (\<forall>label. dict_get fused_t label 0 = dict_get t label 0)
    \<and> (\<forall>label. dict_get fused_m label 0 = dict_get m label 0)
    \<and> (map_of fused_t = map_of t \<longleftrightarrow> set (dict_keys m) \<subseteq> set (dict_keys t))
    \<and> (map_of fused_m = map_of m \<longleftrightarrow> set (dict_keys t) \<subseteq> set (dict_keys m))"
proof -
  obtain ft where ft: "fuse_scores t m 1 0 = Inr ft"
    and kt: "set (dict_keys ft) = set (dict_keys t) \<union> set (dict_keys m)"
    by (rule fuse_scores_props [of t m 1 0]) blast
  obtain fm where fm: "fuse_scores t m 0 1 = Inr fm"
    and km: "set (dict_keys fm) = set (dict_keys t) \<union> set (dict_keys m)"
    by (rule fuse_scores_props [of t m 0 1]) blast
  show ?thesis
    using ft fm kt km dict_get_fused_text [OF ft] dict_get_fused_model [OF fm]
      map_of_fused_text [OF ft] map_of_fused_model [OF fm]
    by blast
qed

theorem fuse_scores_extreme_weights_witness:
  "\<exists>fused_t fused_m.
      fuse_scores [(''ai_ui'', 1/10), (''not_ai_ui'', 9/10)] [(''not_ai_ui'', 3/10), (''ai_ui'', 7/10)] 1 0 = Inr fused_t
    \<and> fuse_scores [(''ai_ui'', 1/10), (''not_ai_ui'', 9/10)] [(''not_ai_ui'', 3/10), (''ai_ui'', 7/10)] 0 1 = Inr fused_m
    \<and> map_of fused_t = map_of [(''ai_ui'', 1/10), (''not_ai_ui'', 9/10)]
    \<and> map_of fused_m = map_of [(''not_ai_ui'', 3/10), (''ai_ui'', 7/10)]"
  using fuse_scores_extreme_weights
          [of "[(''ai_ui'', 1/10), (''not_ai_ui'', 9/10)]" "[(''not_ai_ui'', 3/10), (''ai_ui'', 7/10)]"]
  by (auto simp: dict_keys_def)

text \<open>
  The claim as stated fails where one vector has a key the other lacks: with weights 1
  and 0 the labels of a model without a label file (\<^verbatim>\<open>class_0\<close>, \<^verbatim>\<open>class_1\<close>)
  enter the fused vector with value 0, and with weights 0 and 1 a two-class model's
  vector is extended by the text vector's labels.
\<close>

theorem fuse_scores_extreme_weights_counterexample:
  "fuse_scores [(''ai_ui'', 1/10), (''not_ai_ui'', 9/10)] [(''class_0'', 3/5), (''class_1'', 2/5)] 1 0
     = Inr [(''ai_ui'', 1/10), (''not_ai_ui'', 9/10), (''class_0'', 0), (''class_1'', 0)]
   \<and> map_of [(''ai_ui'', 1/10), (''not_ai_ui'', 9/10), (''class_0'', 0), (''class_1'', 0::real)] ''class_0''
       \<noteq> map_of [(''ai_ui'', 1/10), (''not_ai_ui'', 9/10::real)] ''class_0''
   \<and> fuse_scores [(''chatgpt_ui'', 1/5), (''ai_ui'', 1/10), (''not_ai_ui'', 4/5)] [(''not_ai_ui'', 3/10), (''ai_ui'', 7/10)] 0 1
     = Inr [(''chatgpt_ui'', 0), (''not_ai_ui'', 3/10), (''ai_ui'', 7/10)]
   \<and> map_of [(''chatgpt_ui'', 0), (''not_ai_ui'', 3/10), (''ai_ui'', 7/10::real)] ''chatgpt_ui''
       \<noteq> map_of [(''not_ai_ui'', 3/10), (''ai_ui'', 7/10::real)] ''chatgpt_ui''"
  by (simp add: fuse_scores_def union_keys_def dict_keys_def dict_get_def py_div_def)

text \<open>
  Claim C9 (initial frame-rate state), as amended. Before the first iteration
  \<open>high_mode_until\<close> is 0 and \<open>current_fps\<close> is \<open>max 1 base_fps\<close>, which is
  \<open>base_fps\<close> whenever \<open>base_fps\<close> is at least 1.
\<close>

theorem initial_fps_state:
  "high_mode_until (fps (initial_state a)) = 0
   \<and> current_fps (fps (initial_state a)) = max 1 (base_fps a)
   \<and> (1 \<le> base_fps a \<longrightarrow> current_fps (fps (initial_state a)) = base_fps a)"
  by (simp add: initial_state_def)

theorem initial_fps_state_witness:
  "1 \<le> base_fps default_args
   \<and> high_mode_until (fps (initial_state default_args)) = 0
   \<and> current_fps (fps (initial_state default_args)) = 4"
  using initial_fps_state [of default_args] by (simp add: default_args_def)

text \<open>With \<^verbatim>\<open>--base-fps 0.5\<close> the loop starts at 1 frame per second, not at 0.5.\<close>

theorem initial_fps_state_counterexample:
  "current_fps (fps (initial_state (default_args\<lparr>base_fps := 1/2\<rparr>))) = 1
   \<and> current_fps (fps (initial_state (default_args\<lparr>base_fps := 1/2\<rparr>)))
       \<noteq> base_fps (default_args\<lparr>base_fps := 1/2\<rparr>)"
  by (simp add: initial_state_def default_args_def)

subsection \<open>Properties of the label decider\<close>

lemma max_by_value_mem: "max_by_value items best \<in> set (best # items)"
  by (induction items arbitrary: best) auto

lemma max_by_value_fold:
  "snd (max_by_value items best) = fold max (map snd items) (snd best)"
  by (induction items arbitrary: best) (simp_all add: max_def)

lemma max_by_value_snd:
  "snd (max_by_value items best) = Max (snd ` set (best # items))"
proof -
  have "Max (set (snd best # map snd items)) = fold max (map snd items) (snd best)"
    by (rule Max.set_eq_fold)
  then show ?thesis by (simp add: max_by_value_fold)
qed

lemma ai_values_filter:
  "ai_values d = snd ` set (filter (\<lambda>item. fst item \<in> set AI_LABELS) d)"
  by (simp add: ai_values_def)

lemma decide_label_no_ai:
  assumes "ai_values d = {}"
  shows "decide_label d th = (NOT_AI_LABEL, 1)"
proof -
  from assms have "set (filter (\<lambda>item. fst item \<in> set AI_LABELS) d) = {}"
    unfolding ai_values_filter by (simp only: image_is_empty)
  then have "filter (\<lambda>item. fst item \<in> set AI_LABELS) d = []"
    by (simp only: set_empty)
  then show ?thesis by (simp add: decide_label_def)
qed

lemma decide_label_some_ai:
  assumes "ai_values d \<noteq> {}"
  obtains l where "(l, Max (ai_values d)) \<in> set d" and "l \<in> set AI_LABELS"
    and "decide_label d th =
           (if Max (ai_values d) \<ge> th then (l, Max (ai_values d))
            else (NOT_AI_LABEL, dict_get d NOT_AI_LABEL (max 0 (1 - Max (ai_values d)))))"
proof -
  let ?c = "filter (\<lambda>item. fst item \<in> set AI_LABELS) d"
  from assms obtain first others where c: "?c = first # others"
    unfolding ai_values_filter by (cases ?c) simp_all
  let ?b = "max_by_value others first"
  have mem: "?b \<in> set ?c" using max_by_value_mem [of others first] c by simp
  have val: "snd ?b = Max (ai_values d)"
    using max_by_value_snd [of others first] c by (simp add: ai_values_filter)
  from mem have "(fst ?b, snd ?b) \<in> set d" "fst ?b \<in> set AI_LABELS" by auto
  moreover have "decide_label d th =
           (if Max (ai_values d) \<ge> th then (fst ?b, Max (ai_values d))
            else (NOT_AI_LABEL, dict_get d NOT_AI_LABEL (max 0 (1 - Max (ai_values d)))))"
    using c val by (simp add: decide_label_def Let_def)
  ultimately show ?thesis using that [of "fst ?b"] val by simp
qed

lemma map_of_distinct_mem:
  "distinct (dict_keys d) \<Longrightarrow> (l, v) \<in> set d \<Longrightarrow> map_of d l = Some v"
  by (simp add: dict_keys_def)

text \<open>
  Claim C7 (contract of the label decider). (i) A vector without a key of
  \<open>AI_LABELS\<close> is decided as \<open>not_ai_ui\<close> with confidence 1. (ii) Otherwise, when the
  greatest score of those keys is at least the threshold (equality included), the result
  is a label of \<open>AI_LABELS\<close> that carries this greatest score in the vector, with that
  score. (iii) Otherwise the result is \<open>not_ai_ui\<close> with the vector's own
  \<open>not_ai_ui\<close> value when it has one, and \<open>max 0 (1 - best)\<close> when it has not.
\<close>

theorem decide_label_contract:
  "(ai_values d = {} \<longrightarrow> decide_label d th = (NOT_AI_LABEL, 1))
   \<and> (ai_values d \<noteq> {} \<and> Max (ai_values d) \<ge> th \<longrightarrow>
        fst (decide_label d th) \<in> set AI_LABELS
        \<and> snd (decide_label d th) = Max (ai_values d)
        \<and> decide_label d th \<in> set d
        \<and> (distinct (dict_keys d) \<longrightarrow>
             map_of d (fst (decide_label d th)) = Some (Max (ai_values d))))
   \<and> (ai_values d \<noteq> {} \<and> Max (ai_values d) < th \<longrightarrow>
        decide_label d th =
          (NOT_AI_LABEL,
           case map_of d NOT_AI_LABEL of
             Some v \<Rightarrow> v
           | None \<Rightarrow> max 0 (1 - Max (ai_values d))))"
proof (cases "ai_values d = {}")
  case True
  then show ?thesis by (simp add: decide_label_no_ai)
next
  case False
  then obtain l where l: "(l, Max (ai_values d)) \<in> set d" "l \<in> set AI_LABELS"
    and dl: "decide_label d th =
           (if Max (ai_values d) \<ge> th then (l, Max (ai_values d))
            else (NOT_AI_LABEL, dict_get d NOT_AI_LABEL (max 0 (1 - Max (ai_values d)))))"
    by (rule decide_label_some_ai)
  show ?thesis
  proof (cases "Max (ai_values d) \<ge> th")
    case True
    with False l dl show ?thesis by (simp add: map_of_distinct_mem)
  next
    case below: False
    with False dl show ?thesis by (simp add: dict_get_def)
  qed
qed

theorem decide_label_contract_witness:
  "decide_label [(''class_0'', 1)] (1/5) = (NOT_AI_LABEL, 1)
   \<and> decide_label [(''chatgpt_ui'', 1/5), (''ai_ui'', 1/5), (''not_ai_ui'', 4/5)] (1/5) = (''chatgpt_ui'', 1/5)
   \<and> decide_label [(''chatgpt_ui'', 1/10), (''not_ai_ui'', 7/10)] (1/5) = (NOT_AI_LABEL, 7/10)
   \<and> decide_label [(''chatgpt_ui'', 1/10)] (1/5) = (NOT_AI_LABEL, 9/10)"
proof -
  have a: "ai_values [(''class_0'', 1)] = {}"
    by (simp add: ai_values_filter AI_LABELS_def)
  have b: "ai_values [(''chatgpt_ui'', 1/5), (''ai_ui'', 1/5), (''not_ai_ui'', 4/5)] = {1/5}"
    by (simp add: ai_values_filter AI_LABELS_def)
  have c: "ai_values [(''chatgpt_ui'', 1/10), (''not_ai_ui'', 7/10)] = {1/10}"
    by (simp add: ai_values_filter AI_LABELS_def)
  have d: "ai_values [(''chatgpt_ui'', 1/10)] = {1/10}"
    by (simp add: ai_values_filter AI_LABELS_def)
  have 1: "decide_label [(''class_0'', 1)] (1/5) = (NOT_AI_LABEL, 1)"
    using decide_label_contract [of "[(''class_0'', 1)]" "1/5"] a by simp
  have 2: "decide_label [(''chatgpt_ui'', 1/5), (''ai_ui'', 1/5), (''not_ai_ui'', 4/5)] (1/5) = (''chatgpt_ui'', 1/5)"
    by (simp add: decide_label_def AI_LABELS_def)
  have 3: "decide_label [(''chatgpt_ui'', 1/10), (''not_ai_ui'', 7/10)] (1/5) = (NOT_AI_LABEL, 7/10)"
    using decide_label_contract [of "[(''chatgpt_ui'', 1/10), (''not_ai_ui'', 7/10)]" "1/5"] c
    by (simp add: NOT_AI_LABEL_def)
  have 4: "decide_label [(''chatgpt_ui'', 1/10)] (1/5) = (NOT_AI_LABEL, 9/10)"
    using decide_label_contract [of "[(''chatgpt_ui'', 1/10)]" "1/5"] d
    by (simp add: NOT_AI_LABEL_def)
  show ?thesis using 1 2 3 4 by simp
qed

subsection \<open>Properties of the frame-rate controller\<close>

lemma fps_trace_length: "length (fps_trace a st run) = length run"
  by (induction run arbitrary: st) (simp_all add: Let_def)

lemma fps_control_until:
  "high_mode_until (fps_control a s t st)
     = (if ai_peak s \<ge> high_fps_trigger a then t + max 0 (high_fps_hold_seconds a)
        else high_mode_until st)"
  by (simp add: fps_control_def Let_def)

lemma fps_control_high:
  "t < high_mode_until (fps_control a s t st) \<Longrightarrow>
   current_fps (fps_control a s t st) = max (base_fps a) (high_fps a)"
  by (auto simp: fps_control_def Let_def max_def split: if_splits)

text \<open>
  Once the deadline is at least \<open>D\<close>, it stays so over every later iteration whose
  clock reading is not before \<open>D - hold\<close>.
\<close>

lemma fps_trace_until_ge:
  assumes "D \<le> high_mode_until st"
    and "\<forall>inp \<in> set run. D \<le> snd inp + max 0 (high_fps_hold_seconds a)"
    and "j < length run"
  shows "D \<le> high_mode_until (fps_trace a st run ! j)"
  using assms
proof (induction run arbitrary: st j)
  case Nil
  then show ?case by simp
next
  case (Cons inp run)
  let ?st' = "fps_control a (fst inp) (snd inp) st"
  have st': "D \<le> high_mode_until ?st'"
    using Cons.prems(1,2) by (simp add: fps_control_until)
  show ?case
  proof (cases j)
    case 0
    with st' show ?thesis by (simp add: Let_def)
  next
    case (Suc k)
    with Cons.prems have "k < length run" by simp
    moreover from Cons.prems(2)
    have "\<forall>inp \<in> set run. D \<le> snd inp + max 0 (high_fps_hold_seconds a)" by simp
    ultimately have "D \<le> high_mode_until (fps_trace a ?st' run ! k)"
      using Cons.IH [OF st'] by blast
    with Suc show ?thesis by (simp add: Let_def)
  qed
qed

lemma fps_trace_high:
  assumes "j < length run" and "snd (run ! j) < high_mode_until (fps_trace a st run ! j)"
  shows "current_fps (fps_trace a st run ! j) = max (base_fps a) (high_fps a)"
  using assms
proof (induction run arbitrary: st j)
  case Nil
  then show ?case by simp
next
  case (Cons inp run)
  show ?case
  proof (cases j)
    case 0
    with Cons.prems show ?thesis by (simp add: Let_def fps_control_high)
  next
    case (Suc k)
    with Cons.prems Cons.IH [of k "fps_control a (fst inp) (snd inp) st"]
    show ?thesis by (simp add: Let_def)
  qed
qed

lemma fps_trace_append:
  "fps_trace a st (xs @ ys)
     = fps_trace a st xs @ fps_trace a (last (st # fps_trace a st xs)) ys"
  by (induction xs arbitrary: st) (simp_all add: Let_def)

lemma fps_trace_drop:
  assumes "i < length run"
  shows "\<exists>st'. \<forall>k. i + k < length run \<longrightarrow>
           fps_trace a st run ! (i + k) = fps_trace a st' (drop i run) ! k"
proof -
  let ?pre = "take i run"
  let ?st' = "last (st # fps_trace a st ?pre)"
  have run: "run = ?pre @ drop i run" by simp
  have len: "length (fps_trace a st ?pre) = i"
    using assms by (simp add: fps_trace_length)
  have "fps_trace a st run = fps_trace a st ?pre @ fps_trace a ?st' (drop i run)"
    using fps_trace_append [of a st ?pre "drop i run"] by simp
  then have "\<forall>k. fps_trace a st run ! (i + k) = fps_trace a ?st' (drop i run) ! k"
    using len by (simp add: nth_append)
  then show ?thesis by blast
qed

text \<open>
  Claim C1 (hysteresis hold). Take a run of the control step with a hold of at least 0
  whose clock readings do not decrease from one iteration to the next. If the AI peak at
  iteration \<open>i\<close> reaches the trigger, then at iteration \<open>i\<close> and at every later
  iteration \<open>j\<close> whose clock reading is before \<open>t\<^sub>i + hold\<close> the frame rate is
  \<open>max base_fps high_fps\<close>, whatever the AI peaks after iteration \<open>i\<close> are.
\<close>

theorem fps_hysteresis_hold:
  assumes hold: "0 \<le> high_fps_hold_seconds a"
    and mono: "sorted (map snd run)"
    and ij: "i \<le> j" "j < length run"
    and trig: "ai_peak (fst (run ! i)) \<ge> high_fps_trigger a"
    and within: "snd (run ! j) < snd (run ! i) + high_fps_hold_seconds a"
  shows "current_fps (fps_trace a st run ! j) = max (base_fps a) (high_fps a)"
proof -
  let ?D = "snd (run ! i) + high_fps_hold_seconds a"
  from ij have i: "i < length run" by simp
  obtain st' where st': "\<And>k. i + k < length run \<Longrightarrow>
           fps_trace a st run ! (i + k) = fps_trace a st' (drop i run) ! k"
    using fps_trace_drop [OF i, of a st] by blast
  obtain inp rest where dr: "drop i run = inp # rest" and inp: "inp = run ! i"
    using i by (metis Cons_nth_drop_Suc)
  let ?st1 = "fps_control a (fst inp) (snd inp) st'"
  have D1: "?D \<le> high_mode_until ?st1"
    using trig hold inp by (simp add: fps_control_until)
  have later: "\<forall>x \<in> set (drop i run). ?D \<le> snd x + max 0 (high_fps_hold_seconds a)"
  proof
    fix x assume "x \<in> set (drop i run)"
    then obtain k where k: "k < length (drop i run)" "x = drop i run ! k"
      by (metis in_set_conv_nth)
    then have "i + k < length run" "x = run ! (i + k)" by simp_all
    moreover have "map snd run ! i \<le> map snd run ! (i + k)"
      using mono \<open>i + k < length run\<close> by (simp add: sorted_iff_nth_mono del: nth_map)
    ultimately have "snd (run ! i) \<le> snd x" using i by simp
    with hold show "?D \<le> snd x + max 0 (high_fps_hold_seconds a)" by simp
  qed
  obtain k where k: "j = i + k" using ij(1) by (metis le_Suc_ex)
  with ij have kk: "k < length (drop i run)" by simp
  have D0: "?D \<le> high_mode_until (fps_trace a st' (drop i run) ! k)"
  proof (cases k)
    case 0
    with dr D1 show ?thesis by (simp add: Let_def)
  next
    case (Suc m)
    from later dr have "\<forall>x \<in> set rest. ?D \<le> snd x + max 0 (high_fps_hold_seconds a)"
      by simp
    moreover from kk dr Suc have "m < length rest" by simp
    ultimately have "?D \<le> high_mode_until (fps_trace a ?st1 rest ! m)"
      using fps_trace_until_ge [OF D1] by blast
    with dr Suc show ?thesis by (simp add: Let_def)
  qed
  have "snd (drop i run ! k) < high_mode_until (fps_trace a st' (drop i run) ! k)"
    using within D0 k ij by simp
  then have "current_fps (fps_trace a st' (drop i run) ! k) = max (base_fps a) (high_fps a)"
    using fps_trace_high [OF kk] by blast
  with st' [of k] k ij show ?thesis by simp
qed

theorem fps_hysteresis_hold_witness:
  "current_fps
     (fps_trace default_args \<lparr>high_mode_until = 0, current_fps = 4\<rparr>
        [([(''ai_ui'', 9/10)], 100), ([(''ai_ui'', 0)], 1029/10), ([], 1031/10)] ! 1) = 8"
proof -
  let ?run = "[([(''ai_ui'', 9/10)], 100), ([(''ai_ui'', 0)], 1029/10), ([], 1031/10)]
                :: (scores \<times> real) list"
  have peak: "ai_peak (fst (?run ! 0)) = 9/10"
    by (simp add: ai_peak_def AI_LABELS_def dict_get_def max_list_def)
  have "current_fps (fps_trace default_args \<lparr>high_mode_until = 0, current_fps = 4\<rparr> ?run ! 1)
          = max (base_fps default_args) (high_fps default_args)"
  proof (rule fps_hysteresis_hold [where i = 0])
    show "0 \<le> high_fps_hold_seconds default_args" by (simp add: default_args_def)
    show "sorted (map snd ?run)" by simp
    show "(0::nat) \<le> 1" by simp
    show "1 < length ?run" by simp
    show "high_fps_trigger default_args \<le> ai_peak (fst (?run ! 0))"
      unfolding peak by (simp add: default_args_def)
    show "snd (?run ! 1) < snd (?run ! 0) + high_fps_hold_seconds default_args"
      by (simp add: default_args_def)
  qed
  then show ?thesis by (simp add: default_args_def)
qed

subsection \<open>Properties of the text evidence extractor\<close>





lemma match_keyword_raw:
  "dict_get (fst (match_keyword hit n label keyword acc)) l 0
     = dict_get (fst acc) l 0
       + (if l = label then hit_confidence hit * kw_weight n keyword else 0)"
  by (simp add: match_keyword_def kw_weight_def Let_def dict_get_update)

lemma match_keywords_raw:
  "dict_get (fst (fold (match_keyword hit n label) kws acc)) l 0
     = dict_get (fst acc) l 0
       + (if l = label then hit_confidence hit * sum_list (map (kw_weight n) kws) else 0)"
  by (induction kws arbitrary: acc) (simp_all add: match_keyword_raw algebra_simps)

lemma match_labels_raw:
  "dict_get (fst (fold (match_label hit n) table acc)) l 0
     = dict_get (fst acc) l 0 + hit_confidence hit * label_weight table l n"
  by (induction table arbitrary: acc)
     (simp_all add: label_weight_def match_label_def match_keywords_raw algebra_simps)

lemma match_hit_raw:
  "dict_get (fst (match_hit table hit st)) l 0
     = dict_get (fst st) l 0 + hit_confidence hit * hit_weight table l hit"
  by (simp add: match_hit_def hit_weight_def Let_def match_labels_raw)

lemma match_hits_raw:
  "dict_get (fst (fold (match_hit table) hits st)) l 0
     = dict_get (fst st) l 0
       + sum_list (map (\<lambda>h. hit_confidence h * hit_weight table l h) hits)"
  by (induction hits arbitrary: st) (simp_all add: match_hit_raw algebra_simps)

lemma raw0_get: "dict_get (map (\<lambda>label. (label, 0)) ls) l 0 = 0"
  by (induction ls) (simp_all add: dict_get_def)

lemma raw_score_eq:
  "raw_score hits l = sum_list (map (\<lambda>h. hit_confidence h * hit_weight LABEL_KEYWORDS l h) hits)"
  by (simp add: raw_score_def match_hits_raw raw0_get)

lemma update_fresh: "k \<notin> fst ` set al \<Longrightarrow> AList.update k v al = al @ [(k, v)]"
  by (induction al) auto

lemma fold_update_fresh:
  "distinct ls \<Longrightarrow> set ls \<inter> fst ` set r0 = {} \<Longrightarrow>
   fold (\<lambda>l r. AList.update l (f l) r) ls r0 = r0 @ map (\<lambda>l. (l, f l)) ls"
proof (induction ls arbitrary: r0)
  case Nil
  show ?case by simp
next
  case (Cons l ls)
  from Cons.prems have fresh: "l \<notin> fst ` set r0" by auto
  from Cons.prems have "distinct ls" "set ls \<inter> fst ` set (r0 @ [(l, f l)]) = {}" by auto
  then have "fold (\<lambda>l r. AList.update l (f l) r) ls (r0 @ [(l, f l)])
               = (r0 @ [(l, f l)]) @ map (\<lambda>l. (l, f l)) ls"
    by (rule Cons.IH)
  then show ?case by (simp add: update_fresh [OF fresh])
qed

lemma distinct_AI_LABELS: "distinct AI_LABELS"
  by (simp add: AI_LABELS_def)

lemma NOT_AI_not_in_AI_LABELS: "NOT_AI_LABEL \<notin> set AI_LABELS"
  by (simp add: AI_LABELS_def NOT_AI_LABEL_def)

lemma AI_LABELS_nonempty: "AI_LABELS \<noteq> []"
  by (simp add: AI_LABELS_def)

lemma max_list_Max: "xs \<noteq> [] \<Longrightarrow> max_list xs = Max (set xs)"
proof -
  assume "xs \<noteq> []"
  then obtain y ys where xs: "xs = y # ys" by (cases xs) auto
  have "Max (set (y # ys)) = fold max ys y" by (rule Max.set_eq_fold)
  with xs show ?thesis by (simp add: max_list_def)
qed

text \<open>The vector that \<^verbatim>\<open>score_text_hits\<close> returns, entry by entry.\<close>

lemma score_text_hits_shape:
  "fst (score_text_hits hits g)
     = map (\<lambda>l. (l, saturate (raw_score hits l) g)) AI_LABELS
       @ [(NOT_AI_LABEL, max 0 (1 - Max ((\<lambda>l. saturate (raw_score hits l) g) ` set AI_LABELS)))]"
proof -
  let ?f = "\<lambda>l. saturate (raw_score hits l) g"
  let ?ts = "map (\<lambda>l. (l, ?f l)) AI_LABELS"
  have ts: "fold (\<lambda>label ts. AList.update label
                (saturate (dict_get (fst (fold (match_hit LABEL_KEYWORDS) hits
                    (map (\<lambda>label. (label, 0)) AI_LABELS, []))) label 0) g) ts) AI_LABELS []
              = ?ts"
    using fold_update_fresh [OF distinct_AI_LABELS, of "[]" ?f]
    by (simp add: raw_score_def)
  have ne: "?ts \<noteq> []" using AI_LABELS_nonempty by simp
  have mx: "max_list (map snd ?ts) = Max (?f ` set AI_LABELS)"
    using max_list_Max [of "map snd ?ts"] ne by (simp add: comp_def)
  have fresh: "NOT_AI_LABEL \<notin> fst ` set ?ts"
    using NOT_AI_not_in_AI_LABELS by (simp add: image_image)
  show ?thesis
    unfolding score_text_hits_def Let_def fst_conv ts
    using ne by (simp only: mx if_False update_fresh [OF fresh])
qed

lemma map_of_tabulate:
  "map_of (map (\<lambda>l. (l, f l)) ls @ rest) k = (if k \<in> set ls then Some (f k) else map_of rest k)"
  by (induction ls) auto

lemma text_score_ai:
  "l \<in> set AI_LABELS \<Longrightarrow> text_score hits g l = saturate (raw_score hits l) g"
  by (simp add: text_score_def score_text_hits_shape dict_get_def map_of_tabulate del: map_of_append)

lemma text_score_not_ai:
  "text_score hits g NOT_AI_LABEL
     = max 0 (1 - Max ((\<lambda>l. saturate (raw_score hits l) g) ` set AI_LABELS))"
  using NOT_AI_not_in_AI_LABELS
  by (simp add: text_score_def score_text_hits_shape dict_get_def map_of_tabulate del: map_of_append)

lemma saturate_range: "0 \<le> saturate r g" "saturate r g \<le> 1"
proof -
  have "- max 0 r * max (5 / 10\<^sup>2) g \<le> 0"
    by (simp add: max_def)
  then show "0 \<le> saturate r g" by (simp add: saturate_def)
  show "saturate r g \<le> 1" by (simp add: saturate_def)
qed


lemma saturate_zero: "saturate 0 g = 0"
  by (simp add: saturate_def)

lemma raw_score_Nil: "raw_score [] l = 0"
  by (simp add: raw_score_eq)

lemma text_scores_keys:
  "dict_keys (fst (score_text_hits hits g)) = AI_LABELS @ [NOT_AI_LABEL]"
  by (simp add: score_text_hits_shape dict_keys_def comp_def)

lemma text_scores_map_of_not_ai:
  "map_of (fst (score_text_hits hits g)) NOT_AI_LABEL = Some (text_score hits g NOT_AI_LABEL)"
proof -
  have "NOT_AI_LABEL \<in> set (dict_keys (fst (score_text_hits hits g)))"
    by (simp add: text_scores_keys)
  then show ?thesis unfolding text_score_def by (rule map_of_in_keys)
qed

lemma text_scores_map_of_ai:
  assumes "l \<in> set AI_LABELS"
  shows "map_of (fst (score_text_hits hits g)) l = Some (text_score hits g l)"
proof -
  from assms have "l \<in> set (dict_keys (fst (score_text_hits hits g)))"
    by (simp add: text_scores_keys)
  then show ?thesis unfolding text_score_def by (rule map_of_in_keys)
qed

lemma Max_text_score:
  "Max ((\<lambda>l. text_score hits g l) ` set AI_LABELS)
     = Max ((\<lambda>l. saturate (raw_score hits l) g) ` set AI_LABELS)"
proof -
  have "(\<lambda>l. text_score hits g l) ` set AI_LABELS
          = (\<lambda>l. saturate (raw_score hits l) g) ` set AI_LABELS"
    by (rule image_cong) (simp_all add: text_score_ai)
  then show ?thesis by simp
qed

text \<open>
  Claim C5 (invariant of the text-score vector). For every hit list and every gain, the
  keys of the vector are the labels of \<open>AI_LABELS\<close> followed by \<open>not_ai_ui\<close>, each
  once, and the value at \<open>not_ai_ui\<close> is \<open>max 0 (1 - m)\<close> for \<open>m\<close> the greatest of the
  scores of the labels of \<open>AI_LABELS\<close>. For the empty hit list every such score is 0 and
  the value at \<open>not_ai_ui\<close> is 1.
\<close>

theorem text_scores_invariant:
  "dict_keys (fst (score_text_hits hits g)) = AI_LABELS @ [NOT_AI_LABEL]
   \<and> distinct (dict_keys (fst (score_text_hits hits g)))
   \<and> map_of (fst (score_text_hits hits g)) NOT_AI_LABEL
       = Some (max 0 (1 - Max ((\<lambda>l. dict_get (fst (score_text_hits hits g)) l 0) ` set AI_LABELS)))
   \<and> (\<forall>l \<in> set AI_LABELS. map_of (fst (score_text_hits [] g)) l = Some 0)
   \<and> map_of (fst (score_text_hits [] g)) NOT_AI_LABEL = Some 1"
proof -
  have d: "distinct (AI_LABELS @ [NOT_AI_LABEL])"
    using distinct_AI_LABELS NOT_AI_not_in_AI_LABELS by simp
  have n: "map_of (fst (score_text_hits hits g)) NOT_AI_LABEL
       = Some (max 0 (1 - Max ((\<lambda>l. dict_get (fst (score_text_hits hits g)) l 0) ` set AI_LABELS)))"
    using text_scores_map_of_not_ai [of hits g] Max_text_score [of hits g]
      text_score_not_ai [of hits g]
    by (simp add: text_score_def)
  have z: "\<forall>l \<in> set AI_LABELS. map_of (fst (score_text_hits [] g)) l = Some 0"
    by (simp add: text_scores_map_of_ai text_score_ai raw_score_Nil saturate_zero)
  have "(\<lambda>l. saturate (raw_score [] l) g) ` set AI_LABELS = {0}"
    using AI_LABELS_nonempty by (simp add: raw_score_Nil saturate_zero image_constant_conv)
  then have o: "map_of (fst (score_text_hits [] g)) NOT_AI_LABEL = Some 1"
    by (simp add: text_scores_map_of_not_ai text_score_not_ai)
  show ?thesis using d n z o by (simp add: text_scores_keys)
qed

theorem text_scores_invariant_witness:
  "map_of (fst (score_text_hits [] (7/10))) ''chatgpt_ui'' = Some 0
   \<and> map_of (fst (score_text_hits [] (7/10))) ''not_ai_ui'' = Some 1"
proof -
  note inv = text_scores_invariant [of "[]" "7/10"]
  from inv have a: "\<forall>l \<in> set AI_LABELS. map_of (fst (score_text_hits [] (7/10))) l = Some 0"
    by (elim conjE)
  from inv have b: "map_of (fst (score_text_hits [] (7/10))) NOT_AI_LABEL = Some 1"
    by (elim conjE)
  have "''chatgpt_ui'' \<in> set AI_LABELS" by (simp add: AI_LABELS_def)
  with a have "map_of (fst (score_text_hits [] (7/10))) ''chatgpt_ui'' = Some 0" by (rule bspec)
  with b show ?thesis by (simp only: NOT_AI_LABEL_def)
qed



subsection \<open>Where the claimed monotonicity and the bound below 1 fail\<close>












subsection \<open>Range of the scores\<close>

lemma in_unit_get:
  assumes "in_unit d"
  shows "0 \<le> dict_get d l 0 \<and> dict_get d l 0 \<le> 1"
proof (cases "map_of d l")
  case None
  then show ?thesis by (simp add: dict_get_def)
next
  case (Some v)
  then have "(l, v) \<in> set d" by (rule map_of_SomeD)
  with assms have "0 \<le> v \<and> v \<le> 1" by (auto simp: in_unit_def)
  with Some show ?thesis by (simp add: dict_get_def)
qed

lemma in_unit_fold_update:
  assumes "\<And>l. l \<in> set ls \<Longrightarrow> 0 \<le> f l \<and> f l \<le> 1"
  shows "in_unit (fold (\<lambda>l r. AList.update l (f l) r) ls [])"
  unfolding in_unit_def
proof
  fix item assume mem: "item \<in> set (fold (\<lambda>l r. AList.update l (f l) r) ls [])"
  let ?d = "fold (\<lambda>l r. AList.update l (f l) r) ls []"
  have dist: "distinct (map fst ?d)"
    using distinct_fold_update [of "[]" f ls] by (simp add: dict_keys_def)
  from mem have "(fst item, snd item) \<in> set ?d" by simp
  with dist have "map_of ?d (fst item) = Some (snd item)" by (rule map_of_is_SomeI)
  then have "fst item \<in> set ls \<and> snd item = f (fst item)"
    by (simp add: map_of_fold_update split: if_splits)
  with assms show "0 \<le> snd item \<and> snd item \<le> 1" by auto
qed

lemma fused_value_unit:
  assumes "in_unit t" "in_unit m" "0 \<le> tw" "0 \<le> mw" "0 < tw + mw"
  shows "0 \<le> fused_value t m tw mw (tw + mw) l \<and> fused_value t m tw mw (tw + mw) l \<le> 1"
proof -
  let ?x = "dict_get t l 0" and ?y = "dict_get m l 0"
  have x: "0 \<le> ?x" "?x \<le> 1" using in_unit_get [OF assms(1), of l] by simp_all
  have y: "0 \<le> ?y" "?y \<le> 1" using in_unit_get [OF assms(2), of l] by simp_all
  have "0 \<le> ?x * tw" "0 \<le> ?y * mw" using x y assms by simp_all
  then have lo: "0 \<le> ?x * tw + ?y * mw" by simp
  have "?x * tw \<le> 1 * tw" using x assms by (intro mult_right_mono) simp_all
  moreover have "?y * mw \<le> 1 * mw" using y assms by (intro mult_right_mono) simp_all
  ultimately have hi: "?x * tw + ?y * mw \<le> tw + mw" by simp
  from lo hi assms(5) show ?thesis by (simp add: fused_value_def)
qed

lemma fuse_scores_unit:
  assumes "in_unit t" "in_unit m"
  obtains fused where "fuse_scores t m tw mw = Inr fused" "in_unit fused"
proof -
  let ?a = "eff_text_weight tw mw" and ?b = "eff_model_weight tw mw"
  let ?f = "fold (\<lambda>l r. AList.update l (fused_value t m ?a ?b (?a + ?b) l) r) (union_keys t m) []"
  have "fuse_scores t m tw mw = Inr ?f" by (rule fuse_scores_total)
  moreover have "in_unit ?f"
    by (rule in_unit_fold_update)
       (rule fused_value_unit [OF assms eff_text_weight_nonneg eff_model_weight_nonneg eff_weights_pos])
  ultimately show ?thesis by (rule that)
qed

lemma smooth_scores_unit:
  assumes "in_unit p" "in_unit c"
  shows "in_unit (smooth_scores p c decay)"
proof -
  let ?d = "min (max decay 0) (99 / 100)"
  have d: "0 \<le> ?d" "?d \<le> 1" by simp_all
  have "0 \<le> dict_get p l 0 * ?d + dict_get c l 0 * (1 - ?d)
        \<and> dict_get p l 0 * ?d + dict_get c l 0 * (1 - ?d) \<le> 1" for l
  proof -
    let ?x = "dict_get p l 0" and ?y = "dict_get c l 0"
    have x: "0 \<le> ?x" "?x \<le> 1" using in_unit_get [OF assms(1), of l] by simp_all
    have y: "0 \<le> ?y" "?y \<le> 1" using in_unit_get [OF assms(2), of l] by simp_all
    have d1: "0 \<le> 1 - ?d" using d by simp
    have a: "0 \<le> ?x * ?d" using x d by (intro mult_nonneg_nonneg)
    have b: "0 \<le> ?y * (1 - ?d)" using y d1 by (intro mult_nonneg_nonneg)
    have c: "?x * ?d \<le> 1 * ?d" using x d by (intro mult_right_mono)
    have e: "?y * (1 - ?d) \<le> 1 * (1 - ?d)" using y d1 by (intro mult_right_mono)
    from a b have lo: "0 \<le> ?x * ?d + ?y * (1 - ?d)" by (rule add_nonneg_nonneg)
    from c e have "?x * ?d + ?y * (1 - ?d) \<le> 1 * ?d + 1 * (1 - ?d)" by (rule add_mono)
    then have hi: "?x * ?d + ?y * (1 - ?d) \<le> 1" by simp
    from lo hi show ?thesis by (rule conjI)
  qed
  then have "in_unit (fold (\<lambda>l r. AList.update l
                 (dict_get p l 0 * ?d + dict_get c l 0 * (1 - ?d)) r) (union_keys p c) [])"
    by (intro in_unit_fold_update) blast
  then show ?thesis by (simp add: smooth_scores_def Let_def)
qed

lemma text_scores_unit: "in_unit (fst (score_text_hits hits g))"
proof -
  let ?M = "Max ((\<lambda>l. saturate (raw_score hits l) g) ` set AI_LABELS)"
  have ne: "(\<lambda>l. saturate (raw_score hits l) g) ` set AI_LABELS \<noteq> {}"
    using AI_LABELS_nonempty by simp
  have "?M \<in> (\<lambda>l. saturate (raw_score hits l) g) ` set AI_LABELS"
    using ne by (intro Max_in) simp_all
  then have "0 \<le> ?M" using saturate_range(1) by auto
  then have "0 \<le> max 0 (1 - ?M) \<and> max 0 (1 - ?M) \<le> 1" by simp
  moreover have "\<forall>l. 0 \<le> saturate (raw_score hits l) g \<and> saturate (raw_score hits l) g \<le> 1"
    using saturate_range by blast
  ultimately show ?thesis
    unfolding score_text_hits_shape in_unit_def by auto
qed

lemma initial_text_scores_unit: "in_unit (map (\<lambda>label. (label, 0)) ls)"
  by (auto simp: in_unit_def)

lemma in_unit_Nil: "in_unit []"
  by (simp add: in_unit_def)

lemma run_ocr_stage_fields:
  "smoothed_scores (run_ocr_stage a st inp) = smoothed_scores st"
  "fps (run_ocr_stage a st inp) = fps st"
  "frame_index (run_ocr_stage a st inp) = frame_index st"
  by (simp_all add: run_ocr_stage_def Let_def)

lemma run_ocr_stage_unit:
  "in_unit (last_text_scores st) \<Longrightarrow> in_unit (last_text_scores (run_ocr_stage a st inp))"
  by (simp add: run_ocr_stage_def Let_def text_scores_unit)

lemma iteration_unit:
  assumes "in_unit (smoothed_scores st)" "in_unit (last_text_scores st)"
    and "in_unit (model_result inp)"
  obtains st' out where "iteration a st inp = Inr (st', out)"
    and "in_unit (smoothed_scores st')" "in_unit (last_text_scores st')"
proof -
  let ?st1 = "run_ocr_stage a st inp"
  have t: "in_unit (last_text_scores ?st1)" using assms(2) by (rule run_ocr_stage_unit)
  obtain fused where f: "fuse_scores (last_text_scores ?st1) (model_result inp)
                           (text_weight a) (model_weight a) = Inr fused"
    and fu: "in_unit fused"
    using fuse_scores_unit [OF t assms(3)] by blast
  have s: "in_unit (smooth_scores (smoothed_scores ?st1) fused (ema_decay a))"
    using assms(1) fu by (simp add: run_ocr_stage_fields smooth_scores_unit)
  show ?thesis
    by (rule that [of "?st1\<lparr>smoothed_scores := smooth_scores (smoothed_scores ?st1) fused (ema_decay a),
                           frame_index := frame_index ?st1 + 1,
                           fps := fps_control a (smooth_scores (smoothed_scores ?st1) fused (ema_decay a))
                                    (now inp) (fps ?st1)\<rparr>"])
       (simp_all add: iteration_def Let_def f s t)
qed

lemma run_loop_unit:
  assumes "in_unit (smoothed_scores st)" "in_unit (last_text_scores st)"
    and "\<forall>inp \<in> set inputs. in_unit (model_result inp)"
  shows "\<exists>st' outs. run_loop a st inputs = Inr (st', outs) \<and> in_unit (smoothed_scores st')"
  using assms
proof (induction inputs arbitrary: st)
  case Nil
  then show ?case by simp
next
  case (Cons inp inputs)
  from Cons.prems have m: "in_unit (model_result inp)" by simp
  obtain st1 out where it: "iteration a st inp = Inr (st1, out)"
    and u: "in_unit (smoothed_scores st1)" "in_unit (last_text_scores st1)"
    using iteration_unit [OF Cons.prems(1,2) m] by blast
  from Cons.prems(3) have "\<forall>inp \<in> set inputs. in_unit (model_result inp)" by simp
  with u obtain st' outs where "run_loop a st1 inputs = Inr (st', outs)"
    and "in_unit (smoothed_scores st')"
    using Cons.IH by blast
  with it show ?case by simp
qed

lemma initial_state_unit:
  "in_unit (smoothed_scores (initial_state a))" "in_unit (last_text_scores (initial_state a))"
  by (auto simp: initial_state_def in_unit_def)

text \<open>
  Claim C10 (the scores stay in the unit interval). If every value of the two input
  vectors is in \<open>[0, 1]\<close> then, for non-negative weights, \<^verbatim>\<open>fuse_scores\<close> returns a
  vector with every value in \<open>[0, 1]\<close>, and so does \<^verbatim>\<open>smooth_scores\<close> for every decay.
  Hence, when the auxiliary model's scores are in \<open>[0, 1]\<close> on every frame, the loop runs
  without an error and the smoothed vector it carries has every value in \<open>[0, 1]\<close>.
\<close>

theorem score_range_preserved:
  "(in_unit t \<and> in_unit m \<and> 0 \<le> tw \<and> 0 \<le> mw \<longrightarrow>
      (\<exists>fused. fuse_scores t m tw mw = Inr fused \<and> in_unit fused))
   \<and> (in_unit p \<and> in_unit c \<longrightarrow> in_unit (smooth_scores p c decay))
   \<and> ((\<forall>inp \<in> set inputs. in_unit (model_result inp)) \<longrightarrow>
        (\<exists>st outs. run_loop a (initial_state a) inputs = Inr (st, outs)
                    \<and> in_unit (smoothed_scores st)))"
proof (intro conjI impI)
  assume "in_unit t \<and> in_unit m \<and> 0 \<le> tw \<and> 0 \<le> mw"
  then have "in_unit t" "in_unit m" by simp_all
  then show "\<exists>fused. fuse_scores t m tw mw = Inr fused \<and> in_unit fused"
    using fuse_scores_unit [of t m tw mw] by blast
next
  assume "in_unit p \<and> in_unit c"
  then show "in_unit (smooth_scores p c decay)" by (simp add: smooth_scores_unit)
next
  assume "\<forall>inp \<in> set inputs. in_unit (model_result inp)"
  then show "\<exists>st outs. run_loop a (initial_state a) inputs = Inr (st, outs)
                    \<and> in_unit (smoothed_scores st)"
    using run_loop_unit [OF initial_state_unit] by blast
qed

theorem score_range_preserved_witness:
  "(\<exists>fused. fuse_scores [(''ai_ui'', 1/2), (''not_ai_ui'', 1/2)] [(''ai_ui'', 1)] 3 1 = Inr fused
            \<and> in_unit fused)
   \<and> in_unit (smooth_scores [(''ai_ui'', 1)] [(''ai_ui'', 0), (''not_ai_ui'', 1)] (13/20))
   \<and> (\<exists>st outs. run_loop default_args (initial_state default_args)
          [\<lparr>now_loop = 100, ocr_result = [], model_result = [(''not_ai_ui'', 3/10), (''ai_ui'', 7/10)],
            now = 101\<rparr>] = Inr (st, outs)
          \<and> in_unit (smoothed_scores st))"
proof -
  note inst = score_range_preserved
    [of "[(''ai_ui'', 1/2), (''not_ai_ui'', 1/2)]" "[(''ai_ui'', 1)]" 3 1
        "[(''ai_ui'', 1)]" "[(''ai_ui'', 0), (''not_ai_ui'', 1)]" "13/20"
        "[\<lparr>now_loop = 100, ocr_result = [], model_result = [(''not_ai_ui'', 3/10), (''ai_ui'', 7/10)],
            now = 101\<rparr>]" default_args]
  have h1: "in_unit [(''ai_ui'', 1/2), (''not_ai_ui'', 1/2)] \<and> in_unit [(''ai_ui'', 1)]
            \<and> (0::real) \<le> 3 \<and> (0::real) \<le> 1"
    by (simp add: in_unit_def)
  have h2: "in_unit [(''ai_ui'', 1)] \<and> in_unit [(''ai_ui'', 0), (''not_ai_ui'', 1)]"
    by (simp add: in_unit_def)
  have h3: "\<forall>inp \<in> set [\<lparr>now_loop = 100, ocr_result = [],
               model_result = [(''not_ai_ui'', 3/10), (''ai_ui'', 7/10)], now = 101\<rparr>].
              in_unit (model_result inp)"
    by (simp add: in_unit_def)
  from inst h1 h2 h3 show ?thesis by blast
qed

subsection \<open>A run without evidence\<close>

lemma quiet_keys: "dict_keys (quiet_scores v) = AI_LABELS @ [NOT_AI_LABEL]"
  by (simp add: quiet_scores_def dict_keys_def comp_def)

lemma distinct_closed_labels: "distinct (AI_LABELS @ [NOT_AI_LABEL])"
  using distinct_AI_LABELS NOT_AI_not_in_AI_LABELS by simp

lemma dict_get_Nil: "dict_get [] l x = x"
  by (simp add: dict_get_def)

lemma remdups_twice: "distinct xs \<Longrightarrow> remdups (xs @ xs) = xs"
  by (simp add: remdups_append distinct_remdups_id)

lemma remdups_closed_labels_twice:
  "remdups ((AI_LABELS @ [NOT_AI_LABEL]) @ (AI_LABELS @ [NOT_AI_LABEL])) = AI_LABELS @ [NOT_AI_LABEL]"
  using distinct_closed_labels by (rule remdups_twice)

lemma remdups_closed_labels:
  "remdups (AI_LABELS @ [NOT_AI_LABEL]) = AI_LABELS @ [NOT_AI_LABEL]"
  using distinct_closed_labels by (rule distinct_remdups_id)

lemma quiet_get: "dict_get (quiet_scores v) l 0 = (if l = NOT_AI_LABEL then v else 0)"
  using NOT_AI_not_in_AI_LABELS
  by (auto simp: quiet_scores_def dict_get_def map_of_tabulate simp del: map_of_append)

lemma quiet_get_not_ai: "dict_get (quiet_scores v) NOT_AI_LABEL x = v"
  using NOT_AI_not_in_AI_LABELS
  by (simp add: quiet_scores_def dict_get_def map_of_tabulate del: map_of_append)

lemma tabulate_quiet:
  assumes "\<And>l. l \<in> set AI_LABELS \<Longrightarrow> f l = 0"
  shows "map (\<lambda>l. (l, f l)) (AI_LABELS @ [NOT_AI_LABEL]) = quiet_scores (f NOT_AI_LABEL)"
  using assms by (simp add: quiet_scores_def)

lemma text_scores_Nil: "fst (score_text_hits [] g) = quiet_scores 1"
proof -
  have "(\<lambda>l. saturate (raw_score [] l) g) ` set AI_LABELS = {0}"
    using AI_LABELS_nonempty by (simp add: raw_score_Nil saturate_zero image_constant_conv)
  then show ?thesis
    by (simp add: score_text_hits_shape quiet_scores_def raw_score_Nil saturate_zero)
qed

lemma fold_update_closed:
  "fold (\<lambda>l r. AList.update l (f l) r) (AI_LABELS @ [NOT_AI_LABEL]) []
     = map (\<lambda>l. (l, f l)) (AI_LABELS @ [NOT_AI_LABEL])"
  using fold_update_fresh [OF distinct_closed_labels, of "[]" f] by simp

lemma fuse_quiet:
  "fuse_scores (quiet_scores 1) [] tw mw = Inr (quiet_scores (text_share tw mw))"
proof -
  let ?a = "eff_text_weight tw mw" and ?b = "eff_model_weight tw mw"
  let ?f = "fused_value (quiet_scores 1) [] ?a ?b (?a + ?b)"
  have k: "union_keys (quiet_scores 1) [] = AI_LABELS @ [NOT_AI_LABEL]"
    unfolding union_keys_def quiet_keys dict_keys_Nil append_Nil2
    by (rule remdups_closed_labels)
  have z: "\<And>l. l \<in> set AI_LABELS \<Longrightarrow> ?f l = 0"
    using NOT_AI_not_in_AI_LABELS by (auto simp: fused_value_def quiet_get dict_get_Nil)
  have n: "?f NOT_AI_LABEL = text_share tw mw"
    by (simp add: fused_value_def quiet_get dict_get_Nil text_share_def)
  have "fuse_scores (quiet_scores 1) [] tw mw
          = Inr (map (\<lambda>l. (l, ?f l)) (AI_LABELS @ [NOT_AI_LABEL]))"
    unfolding fuse_scores_total k fold_update_closed ..
  also have "map (\<lambda>l. (l, ?f l)) (AI_LABELS @ [NOT_AI_LABEL]) = quiet_scores (?f NOT_AI_LABEL)"
    using z by (rule tabulate_quiet)
  finally show ?thesis by (simp only: n)
qed

lemma smooth_quiet:
  "smooth_scores (quiet_scores p) (quiet_scores w) d
     = quiet_scores (p * clamp_decay d + w * (1 - clamp_decay d))"
proof -
  let ?f = "\<lambda>l. dict_get (quiet_scores p) l 0 * clamp_decay d
                 + dict_get (quiet_scores w) l 0 * (1 - clamp_decay d)"
  have k: "union_keys (quiet_scores p) (quiet_scores w) = AI_LABELS @ [NOT_AI_LABEL]"
    unfolding union_keys_def quiet_keys by (rule remdups_closed_labels_twice)
  have z: "\<And>l. l \<in> set AI_LABELS \<Longrightarrow> ?f l = 0"
    using NOT_AI_not_in_AI_LABELS by (auto simp: quiet_get)
  have "smooth_scores (quiet_scores p) (quiet_scores w) d
          = map (\<lambda>l. (l, ?f l)) (AI_LABELS @ [NOT_AI_LABEL])"
    unfolding smooth_scores_def Let_def k clamp_decay_def [symmetric] fold_update_closed ..
  also have "\<dots> = quiet_scores (?f NOT_AI_LABEL)"
    using z by (rule tabulate_quiet)
  finally show ?thesis by (simp add: quiet_get)
qed

lemma smooth_first:
  "smooth_scores [] (quiet_scores w) d = quiet_scores (w * (1 - clamp_decay d))"
proof -
  let ?f = "\<lambda>l. dict_get [] l 0 * clamp_decay d
                 + dict_get (quiet_scores w) l 0 * (1 - clamp_decay d)"
  have k: "union_keys [] (quiet_scores w) = AI_LABELS @ [NOT_AI_LABEL]"
    unfolding union_keys_def quiet_keys dict_keys_Nil append_Nil
    by (rule remdups_closed_labels)
  have z: "\<And>l. l \<in> set AI_LABELS \<Longrightarrow> ?f l = 0"
    using NOT_AI_not_in_AI_LABELS by (auto simp: quiet_get dict_get_Nil)
  have "smooth_scores [] (quiet_scores w) d
          = map (\<lambda>l. (l, ?f l)) (AI_LABELS @ [NOT_AI_LABEL])"
    unfolding smooth_scores_def Let_def k clamp_decay_def [symmetric] fold_update_closed ..
  also have "\<dots> = quiet_scores (?f NOT_AI_LABEL)"
    using z by (rule tabulate_quiet)
  finally show ?thesis by (simp add: quiet_get dict_get_Nil)
qed

lemma ai_values_quiet: "ai_values (quiet_scores v) = {0}"
proof -
  have "filter (\<lambda>item. fst item \<in> set AI_LABELS) (quiet_scores v)
          = map (\<lambda>label. (label, 0)) AI_LABELS"
    using NOT_AI_not_in_AI_LABELS by (simp add: quiet_scores_def filter_map comp_def)
  then show ?thesis
    using AI_LABELS_nonempty
    by (simp add: ai_values_filter image_image image_constant_conv)
qed

lemma decide_quiet:
  assumes "0 < th"
  shows "decide_label (quiet_scores v) th = (NOT_AI_LABEL, v)"
proof -
  have ne: "ai_values (quiet_scores v) \<noteq> {}" by (simp add: ai_values_quiet)
  obtain l where "decide_label (quiet_scores v) th =
           (if Max (ai_values (quiet_scores v)) \<ge> th then (l, Max (ai_values (quiet_scores v)))
            else (NOT_AI_LABEL, dict_get (quiet_scores v) NOT_AI_LABEL
                    (max 0 (1 - Max (ai_values (quiet_scores v))))))"
    using decide_label_some_ai [OF ne] by blast
  with assms show ?thesis by (simp add: ai_values_quiet quiet_get_not_ai)
qed

lemma ai_peak_quiet: "ai_peak (quiet_scores v) = 0"
proof -
  have eq: "map (\<lambda>label. dict_get (quiet_scores v) label 0) AI_LABELS
              = map (\<lambda>label. 0) AI_LABELS"
  proof (rule map_cong [OF refl])
    fix l assume "l \<in> set AI_LABELS"
    with NOT_AI_not_in_AI_LABELS have "l \<noteq> NOT_AI_LABEL" by blast
    then show "dict_get (quiet_scores v) l 0 = 0" by (simp add: quiet_get)
  qed
  have ne: "map (\<lambda>label. 0::real) AI_LABELS \<noteq> []" using AI_LABELS_nonempty by simp
  have "max_list (map (\<lambda>label. 0::real) AI_LABELS) = 0"
    using AI_LABELS_nonempty max_list_Max [OF ne] by (simp add: image_constant_conv)
  with ne show ?thesis unfolding ai_peak_def Let_def eq by simp
qed

lemma fps_control_quiet:
  assumes "ai_peak s = 0" "0 < high_fps_trigger a" "0 \<le> high_fps_return_threshold a"
    and "high_mode_until st = 0" "0 \<le> t"
  shows "fps_control a s t st = st\<lparr>current_fps := base_fps a\<rparr>"
  using assms by (simp add: fps_control_def Let_def)

lemma run_ocr_quiet:
  assumes "quiet_state p st" "quiet_input inp"
  shows "last_text_scores (run_ocr_stage a st inp) = quiet_scores 1"
proof (cases "frame_index st = 0")
  case True
  with assms(2) show ?thesis
    by (simp add: run_ocr_stage_def Let_def quiet_input_def text_scores_Nil)
next
  case False
  with assms(1) have "last_text_scores st = quiet_scores 1" by (simp add: quiet_state_def)
  with assms(2) show ?thesis
    by (simp add: run_ocr_stage_def Let_def quiet_input_def text_scores_Nil)
qed

lemma smooth_quiet_state:
  assumes "quiet_state p st"
  shows "smooth_scores (smoothed_scores st) (quiet_scores w) d
           = quiet_scores (p * clamp_decay d + w * (1 - clamp_decay d))"
proof -
  from assms consider "smoothed_scores st = []" "p = 0" | "smoothed_scores st = quiet_scores p"
    by (auto simp: quiet_state_def)
  then show ?thesis
  proof cases
    case 1
    then show ?thesis by (simp add: smooth_first)
  next
    case 2
    then show ?thesis by (simp add: smooth_quiet)
  qed
qed

lemma iteration_quiet:
  assumes q: "quiet_state p st" and i: "quiet_input inp" and th: "0 < label_threshold a"
    and p': "p' = p * clamp_decay (ema_decay a)
                  + text_share (text_weight a) (model_weight a) * (1 - clamp_decay (ema_decay a))"
  obtains st' out where "iteration a st inp = Inr (st', out)"
    and "quiet_state p' st'"
    and "predicted_label out = NOT_AI_LABEL" and "predicted_conf out = p'"
    and "fps st' = fps_control a (quiet_scores p') (now inp) (fps st)"
    and "fps_target out = current_fps (fps st')"
proof -
  let ?st1 = "run_ocr_stage a st inp"
  let ?w = "text_share (text_weight a) (model_weight a)"
  have t: "last_text_scores ?st1 = quiet_scores 1" using q i by (rule run_ocr_quiet)
  have m: "model_result inp = []" using i by (simp add: quiet_input_def)
  have f: "fuse_scores (last_text_scores ?st1) (model_result inp) (text_weight a) (model_weight a)
             = Inr (quiet_scores ?w)"
    unfolding t m by (rule fuse_quiet)
  have s: "smooth_scores (smoothed_scores ?st1) (quiet_scores ?w) (ema_decay a) = quiet_scores p'"
    unfolding p' run_ocr_stage_fields by (rule smooth_quiet_state [OF q])
  let ?st' = "?st1\<lparr>smoothed_scores := quiet_scores p',
                    frame_index := frame_index ?st1 + 1,
                    fps := fps_control a (quiet_scores p') (now inp) (fps ?st1)\<rparr>"
  let ?out = "\<lparr>predicted_label = NOT_AI_LABEL, predicted_conf = p',
               fps_target = current_fps (fps_control a (quiet_scores p') (now inp) (fps ?st1))\<rparr>"
  have it: "iteration a st inp = Inr (?st', ?out)"
    by (simp add: iteration_def Let_def f s decide_quiet [OF th])
  show ?thesis
  proof (rule that [OF it])
    show "quiet_state p' ?st'" by (simp add: quiet_state_def t)
  qed (simp_all add: run_ocr_stage_fields)
qed

lemma conf_step:
  fixes p w d :: real
  shows "(p * d + w * (1 - d)) * d ^ Suc k + w * (1 - d ^ Suc k)
           = p * d ^ Suc (Suc k) + w * (1 - d ^ Suc (Suc k))"
  by (simp add: algebra_simps)

lemma run_loop_quiet:
  assumes "quiet_state p st" and "\<forall>inp \<in> set inputs. quiet_input inp"
    and th: "0 < label_threshold a"
  shows "\<exists>st' outs. run_loop a st inputs = Inr (st', outs) \<and> length outs = length inputs
           \<and> (\<forall>k < length inputs.
                 predicted_label (outs ! k) = NOT_AI_LABEL
                 \<and> predicted_conf (outs ! k)
                     = p * clamp_decay (ema_decay a) ^ Suc k
                       + text_share (text_weight a) (model_weight a)
                         * (1 - clamp_decay (ema_decay a) ^ Suc k))
           \<and> (high_mode_until (fps st) = 0 \<and> 0 < high_fps_trigger a
                \<and> 0 \<le> high_fps_return_threshold a \<and> (\<forall>inp \<in> set inputs. 0 \<le> now inp) \<longrightarrow>
                (\<forall>k < length inputs. fps_target (outs ! k) = base_fps a))"
  using assms(1,2)
proof (induction inputs arbitrary: p st)
  case Nil
  then show ?case by simp
next
  case (Cons inp inputs)
  let ?d = "clamp_decay (ema_decay a)" and ?w = "text_share (text_weight a) (model_weight a)"
  let ?p1 = "p * ?d + ?w * (1 - ?d)"
  from Cons.prems have qi: "quiet_input inp" and rest: "\<forall>inp \<in> set inputs. quiet_input inp"
    by simp_all
  obtain st1 out where it: "iteration a st inp = Inr (st1, out)"
    and q1: "quiet_state ?p1 st1"
    and lab: "predicted_label out = NOT_AI_LABEL" and conf: "predicted_conf out = ?p1"
    and f1: "fps st1 = fps_control a (quiet_scores ?p1) (now inp) (fps st)"
    and tgt: "fps_target out = current_fps (fps st1)"
    using iteration_quiet [OF Cons.prems(1) qi th refl] by blast
  obtain st' outs where run: "run_loop a st1 inputs = Inr (st', outs)"
    and len: "length outs = length inputs"
    and vals: "\<forall>k < length inputs.
                 predicted_label (outs ! k) = NOT_AI_LABEL
                 \<and> predicted_conf (outs ! k) = ?p1 * ?d ^ Suc k + ?w * (1 - ?d ^ Suc k)"
    and fpsr: "high_mode_until (fps st1) = 0 \<and> 0 < high_fps_trigger a
                \<and> 0 \<le> high_fps_return_threshold a \<and> (\<forall>inp \<in> set inputs. 0 \<le> now inp) \<longrightarrow>
                (\<forall>k < length inputs. fps_target (outs ! k) = base_fps a)"
    using Cons.IH [OF q1 rest] by blast
  have r: "run_loop a st (inp # inputs) = Inr (st', out # outs)"
    using it run by simp
  have v: "predicted_label ((out # outs) ! k) = NOT_AI_LABEL
           \<and> predicted_conf ((out # outs) ! k) = p * ?d ^ Suc k + ?w * (1 - ?d ^ Suc k)"
    if "k < length (inp # inputs)" for k
  proof (cases k)
    case 0
    with lab conf show ?thesis by simp
  next
    case (Suc j)
    with that have "j < length inputs" by simp
    with vals have "predicted_label (outs ! j) = NOT_AI_LABEL"
      and "predicted_conf (outs ! j) = ?p1 * ?d ^ Suc j + ?w * (1 - ?d ^ Suc j)"
      by simp_all
    with Suc show ?thesis by (simp only: nth_Cons_Suc conf_step)
  qed
  have f: "\<forall>k < length (inp # inputs). fps_target ((out # outs) ! k) = base_fps a"
    if h: "high_mode_until (fps st) = 0" "0 < high_fps_trigger a"
      "0 \<le> high_fps_return_threshold a" "\<forall>x \<in> set (inp # inputs). 0 \<le> now x"
  proof -
    from h(4) have n: "0 \<le> now inp" by simp
    have c: "fps st1 = (fps st)\<lparr>current_fps := base_fps a\<rparr>"
      unfolding f1 using ai_peak_quiet h(2,3,1) n by (rule fps_control_quiet)
    then have "high_mode_until (fps st1) = 0" using h(1) by simp
    with fpsr h have later: "\<forall>k < length inputs. fps_target (outs ! k) = base_fps a" by simp
    show ?thesis
    proof (intro allI impI)
      fix k assume "k < length (inp # inputs)"
      then show "fps_target ((out # outs) ! k) = base_fps a"
        using later tgt c by (cases k) simp_all
    qed
  qed
  from r len v f show ?case by simp
qed

lemma initial_quiet: "quiet_state 0 (initial_state a)"
  by (simp add: quiet_state_def initial_state_def)

lemma run_outputs_quiet:
  assumes "\<forall>inp \<in> set inputs. quiet_input inp" and "0 < label_threshold a"
  shows "\<exists>outs. run_outputs a inputs = Some outs \<and> length outs = length inputs
           \<and> (\<forall>k < length inputs.
                 predicted_label (outs ! k) = NOT_AI_LABEL
                 \<and> predicted_conf (outs ! k)
                     = text_share (text_weight a) (model_weight a)
                         * (1 - clamp_decay (ema_decay a) ^ Suc k))
           \<and> (0 < high_fps_trigger a \<and> 0 \<le> high_fps_return_threshold a
                \<and> (\<forall>inp \<in> set inputs. 0 \<le> now inp) \<longrightarrow>
                (\<forall>k < length inputs. fps_target (outs ! k) = base_fps a))"
proof -
  have h: "high_mode_until (fps (initial_state a)) = 0" by (simp add: initial_state_def)
  obtain st' outs where "run_loop a (initial_state a) inputs = Inr (st', outs)"
    and "length outs = length inputs"
    and "\<forall>k < length inputs.
                 predicted_label (outs ! k) = NOT_AI_LABEL
                 \<and> predicted_conf (outs ! k)
                     = 0 * clamp_decay (ema_decay a) ^ Suc k
                       + text_share (text_weight a) (model_weight a)
                         * (1 - clamp_decay (ema_decay a) ^ Suc k)"
    and "high_mode_until (fps (initial_state a)) = 0 \<and> 0 < high_fps_trigger a
                \<and> 0 \<le> high_fps_return_threshold a \<and> (\<forall>inp \<in> set inputs. 0 \<le> now inp) \<longrightarrow>
                (\<forall>k < length inputs. fps_target (outs ! k) = base_fps a)"
    using run_loop_quiet [OF initial_quiet assms] by blast
  then show ?thesis using h by (simp add: run_outputs_def)
qed

text \<open>
  Claim C3 (a run without OCR hits and without an auxiliary model), as amended. From the
  initial state, with a positive label threshold such as 0.2, every iteration decides
  \<open>not_ai_ui\<close>; the confidence of iteration \<open>k\<close> (counted from 1) is the smoothed
  \<open>not_ai_ui\<close> score \<open>s * (1 - d ^ k)\<close>, where \<open>s\<close> is the share of the text weight in
  the total weight and \<open>d\<close> the clamped decay. When the trigger is positive, the return
  threshold is not negative and no clock reading is negative, the frame rate reported by
  every iteration is \<open>base_fps\<close>.
\<close>

theorem quiet_run:
  assumes "\<forall>inp \<in> set inputs. ocr_result inp = [] \<and> model_result inp = []"
    and "0 < label_threshold a"
  shows "\<exists>outs. run_outputs a inputs = Some outs \<and> length outs = length inputs
           \<and> (\<forall>k < length inputs.
                 predicted_label (outs ! k) = NOT_AI_LABEL
                 \<and> predicted_conf (outs ! k)
                     = text_share (text_weight a) (model_weight a)
                         * (1 - clamp_decay (ema_decay a) ^ Suc k))
           \<and> (0 < high_fps_trigger a \<and> 0 \<le> high_fps_return_threshold a
                \<and> (\<forall>inp \<in> set inputs. 0 \<le> now inp) \<longrightarrow>
                (\<forall>k < length inputs. fps_target (outs ! k) = base_fps a))"
proof -
  from assms(1) have "\<forall>inp \<in> set inputs. quiet_input inp" by (simp add: quiet_input_def)
  then show ?thesis using assms(2) by (rule run_outputs_quiet)
qed

lemma default_share: "text_share (text_weight default_args) (model_weight default_args) = 3/4"
  by (simp add: text_share_def eff_text_weight_def eff_model_weight_def default_args_def)

lemma default_decay: "clamp_decay (ema_decay default_args) = 13/20"
  by (simp add: clamp_decay_def default_args_def)

theorem quiet_run_witness:
  "\<exists>outs. run_outputs default_args
             [\<lparr>now_loop = 100, ocr_result = [], model_result = [], now = 100\<rparr>,
              \<lparr>now_loop = 101, ocr_result = [], model_result = [], now = 101\<rparr>] = Some outs
          \<and> length outs = 2
          \<and> predicted_label (outs ! 0) = NOT_AI_LABEL \<and> predicted_conf (outs ! 0) = 21/80
          \<and> predicted_label (outs ! 1) = NOT_AI_LABEL \<and> predicted_conf (outs ! 1) = 693/1600
          \<and> fps_target (outs ! 0) = 4 \<and> fps_target (outs ! 1) = 4"
proof -
  let ?inputs = "[\<lparr>now_loop = 100, ocr_result = [], model_result = [], now = 100\<rparr>,
                  \<lparr>now_loop = 101, ocr_result = [], model_result = [], now = 101\<rparr>]"
  have h1: "\<forall>inp \<in> set ?inputs. ocr_result inp = [] \<and> model_result inp = []" by simp
  have h2: "0 < label_threshold default_args" by (simp add: default_args_def)
  have h3: "0 < high_fps_trigger default_args \<and> 0 \<le> high_fps_return_threshold default_args
            \<and> (\<forall>inp \<in> set ?inputs. 0 \<le> now inp)"
    by (simp add: default_args_def)
  obtain outs where o: "run_outputs default_args ?inputs = Some outs" "length outs = length ?inputs"
    and v: "\<forall>k < length ?inputs.
                 predicted_label (outs ! k) = NOT_AI_LABEL
                 \<and> predicted_conf (outs ! k) = 3/4 * (1 - (13/20) ^ Suc k)"
    and f: "\<forall>k < length ?inputs. fps_target (outs ! k) = base_fps default_args"
    using quiet_run [OF h1 h2] h3 unfolding default_share default_decay by blast
  have b: "base_fps default_args = 4" by (simp add: default_args_def)
  have "predicted_label (outs ! 0) = NOT_AI_LABEL \<and> predicted_conf (outs ! 0) = 21/80"
    using v [rule_format, of 0] by simp
  moreover have "predicted_label (outs ! 1) = NOT_AI_LABEL \<and> predicted_conf (outs ! 1) = 693/1600"
    using v [rule_format, of 1] by (simp add: power2_eq_square)
  moreover have "fps_target (outs ! 0) = 4 \<and> fps_target (outs ! 1) = 4"
    using f [rule_format, of 0] f [rule_format, of 1] b by simp
  ultimately show ?thesis using o by simp
qed

lemma first_quiet_frame:
  assumes th: "0 < label_threshold a"
    and inp: "inp = \<lparr>now_loop = 100, ocr_result = [], model_result = [], now = 100\<rparr>"
  shows "run_outputs a [inp]
           = Some [\<lparr>predicted_label = NOT_AI_LABEL,
                    predicted_conf = text_share (text_weight a) (model_weight a)
                                       * (1 - clamp_decay (ema_decay a)),
                    fps_target = current_fps (fps_control a
                       (quiet_scores (text_share (text_weight a) (model_weight a)
                                       * (1 - clamp_decay (ema_decay a))))
                       100 (fps (initial_state a)))\<rparr>]"
proof -
  let ?p = "0 * clamp_decay (ema_decay a)
         + text_share (text_weight a) (model_weight a) * (1 - clamp_decay (ema_decay a))"
  have q: "quiet_input inp" by (simp add: quiet_input_def inp)
  obtain st' out where it: "iteration a (initial_state a) inp = Inr (st', out)"
    and lab: "predicted_label out = NOT_AI_LABEL"
    and conf: "predicted_conf out = ?p"
    and f: "fps st' = fps_control a (quiet_scores ?p) (now inp) (fps (initial_state a))"
    and tgt: "fps_target out = current_fps (fps st')"
    using iteration_quiet [OF initial_quiet q th refl] by blast
  have "out = \<lparr>predicted_label = NOT_AI_LABEL, predicted_conf = ?p,
               fps_target = current_fps (fps_control a (quiet_scores ?p) 100
                                           (fps (initial_state a)))\<rparr>"
    using lab conf tgt f by (simp add: inp)
  with it show ?thesis by (simp add: run_outputs_def)
qed

text \<open>
  With the default options the first frame without evidence is decided \<open>not_ai_ui\<close>
  with confidence \<open>0.75 \<times> 0.35 = 0.2625\<close>, not 1. With \<^verbatim>\<open>--high-fps-trigger 0\<close>
  the same frame raises the frame rate to \<open>high_fps\<close>.
\<close>

theorem quiet_run_counterexample:
  "run_outputs default_args [\<lparr>now_loop = 100, ocr_result = [], model_result = [], now = 100\<rparr>]
     = Some [\<lparr>predicted_label = ''not_ai_ui'', predicted_conf = 21/80, fps_target = 4\<rparr>]
   \<and> (21/80 :: real) \<noteq> 1
   \<and> run_outputs (default_args\<lparr>high_fps_trigger := 0\<rparr>)
        [\<lparr>now_loop = 100, ocr_result = [], model_result = [], now = 100\<rparr>]
     = Some [\<lparr>predicted_label = ''not_ai_ui'', predicted_conf = 21/80, fps_target = 8\<rparr>]"
proof -
  let ?inp = "\<lparr>now_loop = 100, ocr_result = [], model_result = [], now = 100\<rparr>"
  let ?a = "default_args\<lparr>high_fps_trigger := 0\<rparr>"
  have 1: "run_outputs default_args [?inp]
     = Some [\<lparr>predicted_label = ''not_ai_ui'', predicted_conf = 21/80, fps_target = 4\<rparr>]"
    by (subst first_quiet_frame [OF _ refl])
       (simp_all add: text_share_def eff_text_weight_def eff_model_weight_def clamp_decay_def
          fps_control_def ai_peak_quiet Let_def default_args_def initial_state_def
          NOT_AI_LABEL_def)
  have 2: "run_outputs ?a [?inp]
     = Some [\<lparr>predicted_label = ''not_ai_ui'', predicted_conf = 21/80, fps_target = 8\<rparr>]"
    by (subst first_quiet_frame [OF _ refl])
       (simp_all add: text_share_def eff_text_weight_def eff_model_weight_def clamp_decay_def
          fps_control_def ai_peak_quiet Let_def default_args_def initial_state_def
          NOT_AI_LABEL_def)
  from 1 2 show ?thesis by simp
qed

subsection \<open>The scenario of a single hit\<close>

lemma exp_neg_bounds:
  "(6088/10000 :: real) < exp (- (3969/8000))" "exp (- (3969/8000)) < (6090/10000 :: real)"
proof -
  let ?x = "- (3969/8000) :: real"
  obtain t where t: "\<bar>t\<bar> \<le> \<bar>?x\<bar>"
    and e: "exp ?x = (\<Sum>m<6. ?x ^ m / fact m) + exp t / fact 6 * ?x ^ 6"
    using Maclaurin_exp_le [of ?x 6] by blast
  define S :: real where "S = (\<Sum>m<6. ?x ^ m / fact m)"
  define R :: real where "R = exp t / fact 6 * ?x ^ 6"
  have s: "S = 1 - 3969/8000 + (3969/8000)^2 / 2 - (3969/8000)^3 / 6
              + (3969/8000)^4 / 24 - (3969/8000)^5 / 120"
    unfolding S_def by (simp add: lessThan_Suc eval_nat_numeral fact_numeral)
  have s_lo: "6088/10000 < S" unfolding s by (simp add: eval_nat_numeral)
  have s_hi: "S + 2 / 720 * (3969/8000)^6 < 6090/10000"
    unfolding s by (simp add: eval_nat_numeral)
  have "t \<le> 1/2" using t by simp
  then have "exp t \<le> exp (1/2)" by simp
  also have "exp (1/2 :: real) \<le> 1 + 1/2 + (1/2)\<^sup>2" by (rule exp_bound) simp_all
  finally have hi: "exp t \<le> 2" by (simp add: power2_eq_square)
  have x6: "?x ^ 6 = (3969/8000) ^ 6" by simp
  have x6pos: "(0::real) \<le> (3969/8000) ^ 6" by simp
  have r1: "0 \<le> R" unfolding R_def x6 using x6pos by simp
  have "exp t / fact 6 \<le> 2 / fact 6" using hi by (intro divide_right_mono) simp_all
  then have "R \<le> 2 / fact 6 * (3969/8000) ^ 6"
    unfolding R_def x6 using x6pos by (rule mult_right_mono)
  then have r2: "R \<le> 2 / 720 * (3969/8000) ^ 6" by (simp add: fact_numeral)
  have eq: "exp ?x = S + R" unfolding S_def R_def by (rule e)
  from s_lo r1 show "(6088/10000 :: real) < exp ?x" unfolding eq by linarith
  from s_hi r2 show "exp ?x < (6090/10000 :: real)" unfolding eq by linarith
qed

lemma chatgpt_norm: "normalize_text ''ChatGPT is great'' = ''chatgpt is great''"
  by code_simp

lemma chatgpt_keyword_weight: "keyword_weight (normalize_text ''chatgpt'') = 63/80"
  by code_simp

lemma chatgpt_weights:
  "map (\<lambda>l. label_weight LABEL_KEYWORDS l ''chatgpt is great'') AI_LABELS
     = [63/80, 0, 0, 0, 0, 0, 0, 0, 0, 0, 0, 0]"
  by code_simp

lemma chatgpt_raw:
  "map (raw_score [\<lparr>hit_text = ''ChatGPT is great'', hit_confidence = 9/10, hit_bbox = b\<rparr>]) AI_LABELS
     = [567/800, 0, 0, 0, 0, 0, 0, 0, 0, 0, 0, 0]"
proof -
  have "map (raw_score [\<lparr>hit_text = ''ChatGPT is great'', hit_confidence = 9/10, hit_bbox = b\<rparr>]) AI_LABELS
          = map ((*) (9/10)) (map (\<lambda>l. label_weight LABEL_KEYWORDS l ''chatgpt is great'') AI_LABELS)"
    by (simp add: raw_score_eq hit_weight_def chatgpt_norm)
  then show ?thesis by (simp only: chatgpt_weights) simp
qed

lemma chatgpt_raw_first:
  "raw_score [\<lparr>hit_text = ''ChatGPT is great'', hit_confidence = 9/10, hit_bbox = b\<rparr>] ''chatgpt_ui''
     = 567/800"
  using chatgpt_raw [of b] by (simp add: AI_LABELS_def)

lemma saturate_chatgpt: "saturate (567/800) (7/10) = 1 - exp (- (3969/8000))"
  by (simp add: saturate_def)

lemma chatgpt_text_score:
  "text_score [\<lparr>hit_text = ''ChatGPT is great'', hit_confidence = 9/10, hit_bbox = b\<rparr>] (7/10)
     ''chatgpt_ui'' = 1 - exp (- (3969/8000))"
proof -
  have "''chatgpt_ui'' \<in> set AI_LABELS" by (simp add: AI_LABELS_def)
  then show ?thesis by (simp only: text_score_ai chatgpt_raw_first saturate_chatgpt)
qed

lemma chatgpt_not_ai_score:
  "text_score [\<lparr>hit_text = ''ChatGPT is great'', hit_confidence = 9/10, hit_bbox = b\<rparr>] (7/10)
     NOT_AI_LABEL = exp (- (3969/8000))"
proof -
  let ?hits = "[\<lparr>hit_text = ''ChatGPT is great'', hit_confidence = 9/10, hit_bbox = b\<rparr>]"
  let ?a = "1 - exp (- (3969/8000)) :: real"
  have a: "0 \<le> ?a" by simp
  have "(\<lambda>l. saturate (raw_score ?hits l) (7/10)) ` set AI_LABELS
          = set (map (\<lambda>r. saturate r (7/10)) (map (raw_score ?hits) AI_LABELS))"
    by (simp add: image_image)
  also have "\<dots> = {?a, 0}"
    unfolding chatgpt_raw by (simp add: saturate_zero saturate_chatgpt)
  finally have "Max ((\<lambda>l. saturate (raw_score ?hits l) (7/10)) ` set AI_LABELS) = ?a"
    using a by simp
  then show ?thesis by (simp add: text_score_not_ai)
qed

text \<open>
  Claim C2 (scenario 1), as amended. For the single hit \<^verbatim>\<open>OcrHit("ChatGPT is great",
  0.9, bbox)\<close> with any box and gain 0.7, the weight of the keyword \<^verbatim>\<open>chatgpt\<close> is
  \<open>0.35 + 7/16 = 0.7875\<close>, the raw score of \<open>chatgpt_ui\<close> is \<open>0.9 \<times> 0.7875 = 0.70875\<close>,
  its text score is \<open>1 - exp (- 0.496125)\<close>, which is 0.391 to three decimals, and the
  score of \<open>not_ai_ui\<close> is 0.609 to three decimals.
\<close>

theorem scenario_chatgpt:
  "keyword_weight (normalize_text ''chatgpt'') = 7875/10000
   \<and> raw_score [\<lparr>hit_text = ''ChatGPT is great'', hit_confidence = 9/10, hit_bbox = b\<rparr>]
        ''chatgpt_ui'' = 70875/100000
   \<and> dict_get (fst (score_text_hits
          [\<lparr>hit_text = ''ChatGPT is great'', hit_confidence = 9/10, hit_bbox = b\<rparr>] (7/10)))
        ''chatgpt_ui'' 0 = 1 - exp (- (496125/1000000))
   \<and> \<bar>dict_get (fst (score_text_hits
          [\<lparr>hit_text = ''ChatGPT is great'', hit_confidence = 9/10, hit_bbox = b\<rparr>] (7/10)))
        ''chatgpt_ui'' 0 - 391/1000\<bar> < 1/2000
   \<and> \<bar>dict_get (fst (score_text_hits
          [\<lparr>hit_text = ''ChatGPT is great'', hit_confidence = 9/10, hit_bbox = b\<rparr>] (7/10)))
        ''not_ai_ui'' 0 - 609/1000\<bar> < 1/2000"
proof -
  let ?ts = "fst (score_text_hits
          [\<lparr>hit_text = ''ChatGPT is great'', hit_confidence = 9/10, hit_bbox = b\<rparr>] (7/10))"
  have c: "dict_get ?ts ''chatgpt_ui'' 0 = 1 - exp (- (3969/8000))"
    using chatgpt_text_score [of b] by (simp only: text_score_def)
  have n: "dict_get ?ts ''not_ai_ui'' 0 = exp (- (3969/8000))"
    using chatgpt_not_ai_score [of b] by (simp only: text_score_def NOT_AI_LABEL_def)
  have f: "(496125/1000000 :: real) = 3969/8000" by simp
  have 1: "\<bar>dict_get ?ts ''chatgpt_ui'' 0 - 391/1000\<bar> < 1/2000"
    unfolding c using exp_neg_bounds by (simp add: abs_less_iff)
  have 2: "\<bar>dict_get ?ts ''not_ai_ui'' 0 - 609/1000\<bar> < 1/2000"
    unfolding n using exp_neg_bounds by (simp add: abs_less_iff)
  show ?thesis
    using chatgpt_keyword_weight chatgpt_raw_first [of b] c 1 2 by (simp only: f) simp
qed

text \<open>
  The values of the claim as stated, 0.353 and 0.647 (from a keyword weight of 0.69), are
  off by more than 0.03.
\<close>

theorem scenario_chatgpt_counterexample:
  "keyword_weight (normalize_text ''chatgpt'') \<noteq> 69/100
   \<and> \<not> \<bar>dict_get (fst (score_text_hits
          [\<lparr>hit_text = ''ChatGPT is great'', hit_confidence = 9/10, hit_bbox = (0, 0, 0, 0)\<rparr>]
          (7/10))) ''chatgpt_ui'' 0 - 353/1000\<bar> \<le> 3/100
   \<and> \<not> \<bar>dict_get (fst (score_text_hits
          [\<lparr>hit_text = ''ChatGPT is great'', hit_confidence = 9/10, hit_bbox = (0, 0, 0, 0)\<rparr>]
          (7/10))) ''not_ai_ui'' 0 - 647/1000\<bar> \<le> 3/100"
proof -
  let ?ts = "fst (score_text_hits
          [\<lparr>hit_text = ''ChatGPT is great'', hit_confidence = 9/10, hit_bbox = (0, 0, 0, 0)\<rparr>] (7/10))"
  have c: "dict_get ?ts ''chatgpt_ui'' 0 = 1 - exp (- (3969/8000))"
    using chatgpt_text_score [of "(0, 0, 0, 0)"] by (simp only: text_score_def)
  have n: "dict_get ?ts ''not_ai_ui'' 0 = exp (- (3969/8000))"
    using chatgpt_not_ai_score [of "(0, 0, 0, 0)"] by (simp only: text_score_def NOT_AI_LABEL_def)
  have 1: "\<not> \<bar>dict_get ?ts ''chatgpt_ui'' 0 - 353/1000\<bar> \<le> 3/100"
    unfolding c using exp_neg_bounds by (simp add: abs_le_iff)
  have 2: "\<not> \<bar>dict_get ?ts ''not_ai_ui'' 0 - 647/1000\<bar> \<le> 3/100"
    unfolding n using exp_neg_bounds by (simp add: abs_le_iff)
  show ?thesis using chatgpt_keyword_weight 1 2 by simp
qed

end
